theory Spec2Isabelle
  imports Complex_Main "HOL-Library.Multiset"
begin

section \<open>Errors and arrays\<close>

text \<open>
  The exceptions the modelled code can meet: Python's \<open>IndexError\<close> (a tuple or list read
  out of range) and the errors of numpy and tensornetwork, \<open>ValueError\<close> (axes that do not
  match the array, a repeated axis, a reshape that changes the size, axis names that do not
  fit), \<open>AxisError\<close> (an axis beyond the rank) and whatever the external decomposition
  raises (\<open>DecompositionFailure\<close>).
\<close>

datatype error = ValueError | IndexError | AxisError | DecompositionFailure

datatype dtype = Int64 | Float32 | Float64 | Complex64 | Complex128

text \<open>
  A dense array: its shape, its element type tag and its elements in row-major (C) order
  of their index tuples. A numpy array always holds as many elements as its shape says
  (\<open>wf_ndarray\<close>).
\<close>

record 'a ndarray =
  shape :: "nat list"
  dtype :: dtype
  data :: "'a list"

definition size_of :: "'a ndarray \<Rightarrow> nat" where
  "size_of t = prod_list (shape t)"

definition wf_ndarray :: "'a ndarray \<Rightarrow> bool" where
  "wf_ndarray t = (length (data t) = size_of t)"

text \<open>Row-major position of an index tuple, and the index tuple of a position.\<close>

fun ravel :: "nat list \<Rightarrow> nat list \<Rightarrow> nat" where
  "ravel (n # ns) (i # is) = i * prod_list ns + ravel ns is"
| "ravel _ _ = 0"

fun unravel :: "nat list \<Rightarrow> nat \<Rightarrow> nat list" where
  "unravel [] j = []"
| "unravel (n # ns) j = (j div prod_list ns) # unravel ns (j mod prod_list ns)"

text \<open>\<open>shape[i]\<close> on a tuple, for a non-negative \<open>i\<close>.\<close>

definition py_index :: "'b list \<Rightarrow> nat \<Rightarrow> error + 'b" where
  "py_index xs i = (if i < length xs then Inr (xs ! i) else Inl IndexError)"

text \<open>\<open>tensor[i0, ..., ik]\<close> with one non-negative index for every axis.\<close>

definition item :: "'a ndarray \<Rightarrow> nat list \<Rightarrow> error + 'a" where
  "item t idx =
     (if length idx = length (shape t) \<and> list_all2 (<) idx (shape t)
      then Inr (data t ! ravel (shape t) idx)
      else Inl IndexError)"

subsection \<open>numpy's transpose and reshape\<close>

text \<open>
  \<open>np.transpose(a, axes)\<close> refuses an axes list whose length is not the rank
  (\<open>ValueError\<close>), then walks the list and refuses an axis beyond the rank (\<open>AxisError\<close>)
  or one it has seen before (\<open>ValueError\<close>).
\<close>

fun check_axes :: "nat \<Rightarrow> nat list \<Rightarrow> nat list \<Rightarrow> error option" where
  "check_axes n seen [] = None"
| "check_axes n seen (a # as) =
     (if n \<le> a then Some AxisError
      else if a \<in> set seen then Some ValueError
      else check_axes n (a # seen) as)"

fun index_of :: "nat \<Rightarrow> nat list \<Rightarrow> nat" where
  "index_of a [] = 0"
| "index_of a (x # xs) = (if x = a then 0 else Suc (index_of a xs))"

text \<open>
  Axis \<open>k\<close> of the result is axis \<open>axes[k]\<close> of the argument: the element at index
  \<open>idx'\<close> of the result is the element of the argument at the index \<open>idx\<close> with
  \<open>idx[axes[k]] = idx'[k]\<close>.
\<close>

definition source_index :: "nat list \<Rightarrow> nat list \<Rightarrow> nat list" where
  "source_index axes idx' = map (\<lambda>a. idx' ! index_of a axes) [0..<length axes]"

definition np_transpose :: "'a ndarray \<Rightarrow> nat list \<Rightarrow> error + 'a ndarray" where
  "np_transpose t axes =
     (if length axes \<noteq> length (shape t) then Inl ValueError
      else case check_axes (length (shape t)) [] axes of
        Some e \<Rightarrow> Inl e
      | None \<Rightarrow>
          (let shape' = map (\<lambda>a. shape t ! a) axes
           in Inr (t\<lparr>shape := shape',
                     data := map (\<lambda>j. data t ! ravel (shape t) (source_index axes (unravel shape' j)))
                               [0..<prod_list shape']\<rparr>)))"

text \<open>
  \<open>np.reshape(a, newshape)\<close> in C order, for a new shape of non-negative sizes: the
  elements keep their row-major order; a new shape of another size is a \<open>ValueError\<close>.
\<close>

definition np_reshape :: "'a ndarray \<Rightarrow> nat list \<Rightarrow> error + 'a ndarray" where
  "np_reshape t new_shape =
     (if prod_list new_shape = size_of t then Inr (t\<lparr>shape := new_shape\<rparr>)
      else Inl ValueError)"

section \<open>process_axes\<close>

definition out_offset :: "bool \<Rightarrow> nat" where
  "out_offset has_out = (if has_out then 1 else 0)"

text \<open>
  \<open>axis_map = {name: i for i, name in enumerate(bond_axes)}\<close>: a later occurrence of a
  name overwrites an earlier one.
\<close>

fun enumerate_dict :: "nat \<Rightarrow> string list \<Rightarrow> (string \<rightharpoonup> nat) \<Rightarrow> (string \<rightharpoonup> nat)" where
  "enumerate_dict i [] m = m"
| "enumerate_dict i (name # names) m = enumerate_dict (Suc i) names (m(name \<mapsto> i))"

definition axis_map :: "string list \<Rightarrow> (string \<rightharpoonup> nat)" where
  "axis_map bond_axes = enumerate_dict 0 bond_axes Map.empty"

definition has_axis :: "string list \<Rightarrow> string \<Rightarrow> bool" where
  "has_axis bond_axes name = (axis_map bond_axes name \<noteq> None)"

text \<open>
  \<open>if has_x: target_order.append(axis_map[x] + out_offset)\<close>: the membership test and
  the lookup it guards are one \<open>case\<close> on the dictionary.
\<close>

definition order_entry :: "string list \<Rightarrow> bool \<Rightarrow> string \<Rightarrow> nat list" where
  "order_entry bond_axes has_out name =
     (case axis_map bond_axes name of
        Some i \<Rightarrow> [i + out_offset has_out]
      | None \<Rightarrow> [])"

definition target_order :: "string list \<Rightarrow> bool \<Rightarrow> nat list" where
  "target_order bond_axes has_out =
     (if has_out then [0] else [])
     @ order_entry bond_axes has_out ''up1''
     @ order_entry bond_axes has_out ''up2''
     @ order_entry bond_axes has_out ''down1''
     @ order_entry bond_axes has_out ''down2''"

definition current_order :: "'a ndarray \<Rightarrow> nat list" where
  "current_order t = [0..<length (shape t)]"

text \<open>
  The size of one group of the new shape: \<open>shape[idx] * shape[idx + 1]\<close> when both labels
  of the group are present, \<open>shape[idx]\<close> when one is, nothing when none is.
\<close>

definition group_shape :: "nat list \<Rightarrow> nat \<Rightarrow> bool \<Rightarrow> bool \<Rightarrow> error + nat list" where
  "group_shape shp idx has1 has2 =
     (if has1 \<or> has2 then
        (if has1 \<and> has2 then
           (case py_index shp idx of
              Inl e \<Rightarrow> Inl e
            | Inr a \<Rightarrow>
               (case py_index shp (idx + 1) of
                  Inl e \<Rightarrow> Inl e
                | Inr b \<Rightarrow> Inr [a * b]))
         else
           (case py_index shp idx of
              Inl e \<Rightarrow> Inl e
            | Inr a \<Rightarrow> Inr [a]))
      else Inr [])"

definition up_idx :: "bool \<Rightarrow> nat" where
  "up_idx has_out = out_offset has_out"

definition down_idx :: "string list \<Rightarrow> bool \<Rightarrow> nat" where
  "down_idx bond_axes has_out =
     out_offset has_out
     + (if has_axis bond_axes ''up1'' then 1 else 0)
     + (if has_axis bond_axes ''up2'' then 1 else 0)"

definition new_shape :: "nat list \<Rightarrow> string list \<Rightarrow> bool \<Rightarrow> error + nat list" where
  "new_shape shp bond_axes has_out =
     (case (if has_out
            then (case py_index shp 0 of Inl e \<Rightarrow> Inl e | Inr n \<Rightarrow> Inr [n])
            else Inr []) of
        Inl e \<Rightarrow> Inl e
      | Inr out_part \<Rightarrow>
         (case group_shape shp (up_idx has_out)
                 (has_axis bond_axes ''up1'') (has_axis bond_axes ''up2'') of
            Inl e \<Rightarrow> Inl e
          | Inr up_part \<Rightarrow>
             (case group_shape shp (down_idx bond_axes has_out)
                     (has_axis bond_axes ''down1'') (has_axis bond_axes ''down2'') of
                Inl e \<Rightarrow> Inl e
              | Inr down_part \<Rightarrow> Inr (out_part @ up_part @ down_part))))"

definition final_axes :: "string list \<Rightarrow> bool \<Rightarrow> string list" where
  "final_axes bond_axes has_out =
     (if has_out then [''out''] else [])
     @ (if has_axis bond_axes ''up1'' \<or> has_axis bond_axes ''up2'' then [''up''] else [])
     @ (if has_axis bond_axes ''down1'' \<or> has_axis bond_axes ''down2'' then [''down''] else [])"

text \<open>The transposition step: only when the target order is not the current one.\<close>

definition reorder :: "'a ndarray \<Rightarrow> string list \<Rightarrow> bool \<Rightarrow> error + 'a ndarray" where
  "reorder t bond_axes has_out =
     (if target_order bond_axes has_out \<noteq> current_order t
      then np_transpose t (target_order bond_axes has_out)
      else Inr t)"

definition process_axes ::
  "'a ndarray \<Rightarrow> string list \<Rightarrow> bool \<Rightarrow> error + ('a ndarray \<times> string list)" where
  "process_axes t bond_axes has_out =
     (case reorder t bond_axes has_out of
        Inl e \<Rightarrow> Inl e
      | Inr t1 \<Rightarrow>
         (case new_shape (shape t1) bond_axes has_out of
            Inl e \<Rightarrow> Inl e
          | Inr ns \<Rightarrow>
             (case np_reshape t1 ns of
                Inl e \<Rightarrow> Inl e
              | Inr t2 \<Rightarrow> Inr (t2, final_axes bond_axes has_out))))"

text \<open>
  The variant of the specification that always applies the permutation of step 1, also
  when the target order is the current one.
\<close>

definition process_axes_always ::
  "'a ndarray \<Rightarrow> string list \<Rightarrow> bool \<Rightarrow> error + ('a ndarray \<times> string list)" where
  "process_axes_always t bond_axes has_out =
     (case np_transpose t (target_order bond_axes has_out) of
        Inl e \<Rightarrow> Inl e
      | Inr t1 \<Rightarrow>
         (case new_shape (shape t1) bond_axes has_out of
            Inl e \<Rightarrow> Inl e
          | Inr ns \<Rightarrow>
             (case np_reshape t1 ns of
                Inl e \<Rightarrow> Inl e
              | Inr t2 \<Rightarrow> Inr (t2, final_axes bond_axes has_out))))"

subsection \<open>The preconditions of process_axes\<close>

text \<open>
  The labels are distinct and drawn from the four bond names, and there is one label for
  every axis of the tensor but the leading \<open>out\<close> axis.
\<close>

definition valid_labels :: "string list \<Rightarrow> bool" where
  "valid_labels bond_axes =
     (distinct bond_axes \<and> set bond_axes \<subseteq> {''up1'', ''up2'', ''down1'', ''down2''})"

definition valid_input :: "'a ndarray \<Rightarrow> string list \<Rightarrow> bool \<Rightarrow> bool" where
  "valid_input t bond_axes has_out =
     (valid_labels bond_axes \<and> length bond_axes + out_offset has_out = length (shape t))"

text \<open>How many labels of a group are present.\<close>

definition group_count :: "bool \<Rightarrow> bool \<Rightarrow> nat" where
  "group_count has1 has2 = (if has1 then 1 else 0) + (if has2 then 1 else 0)"

subsection \<open>process_axes on a store of objects\<close>

text \<open>
  Python passes the tensor and the label list by reference. In the store, an object's
  address is its position; numpy's \<open>transpose\<close> and \<open>reshape\<close> return a new array
  object (a view or a copy: the model keeps the elements of each array object with it)
  and \<open>final_axes\<close> is a new list. The local variable \<open>tensor\<close> is rebound to the
  new array at each step.
\<close>

record 'a heap =
  arrays :: "'a ndarray list"
  label_lists :: "string list list"

definition new_array :: "'a ndarray \<Rightarrow> 'a heap \<Rightarrow> nat \<times> 'a heap" where
  "new_array a h = (length (arrays h), h\<lparr>arrays := arrays h @ [a]\<rparr>)"

definition new_list :: "string list \<Rightarrow> 'a heap \<Rightarrow> nat \<times> 'a heap" where
  "new_list l h = (length (label_lists h), h\<lparr>label_lists := label_lists h @ [l]\<rparr>)"

definition process_axes_heap ::
  "'a heap \<Rightarrow> nat \<Rightarrow> nat \<Rightarrow> bool \<Rightarrow> (error + nat \<times> nat) \<times> 'a heap" where
  "process_axes_heap h tensor bond_axes has_out =
     (let b = label_lists h ! bond_axes;
          order = target_order b has_out
      in case (if order \<noteq> current_order (arrays h ! tensor)
               then (case np_transpose (arrays h ! tensor) order of
                       Inl e \<Rightarrow> Inl e
                     | Inr v \<Rightarrow> Inr (new_array v h))
               else Inr (tensor, h)) of
           Inl e \<Rightarrow> (Inl e, h)
         | Inr (tensor1, h1) \<Rightarrow>
            (case new_shape (shape (arrays h1 ! tensor1)) b has_out of
               Inl e \<Rightarrow> (Inl e, h1)
             | Inr ns \<Rightarrow>
                (case np_reshape (arrays h1 ! tensor1) ns of
                   Inl e \<Rightarrow> (Inl e, h1)
                 | Inr v \<Rightarrow>
                    (let (tensor2, h2) = new_array v h1;
                         (names, h3) = new_list (final_axes b has_out) h2
                     in (Inr (tensor2, names), h3)))))"

section \<open>TT_State_Compression\<close>

text \<open>
  The arrays of a chain are numpy array objects with their memory layout: the strides say
  how many bytes lie between neighbours along each axis, and a reversed view has a negative
  one. A contiguous array of a shape has the row-major strides \<open>c_strides\<close>.
\<close>

record 'a strided = "'a ndarray" +
  strides :: "int list"

definition itemsize :: "dtype \<Rightarrow> nat" where
  "itemsize dt =
     (case dt of Int64 \<Rightarrow> 8 | Float32 \<Rightarrow> 4 | Float64 \<Rightarrow> 8 | Complex64 \<Rightarrow> 8 | Complex128 \<Rightarrow> 16)"

fun c_strides :: "nat \<Rightarrow> nat list \<Rightarrow> int list" where
  "c_strides sz [] = []"
| "c_strides sz (n # ns) = int (sz * prod_list ns) # c_strides sz ns"

text \<open>
  A tensornetwork node: its tensor, its name and the names of its axes. The constructor
  \<open>tn.Node(tensor, name, axis_names)\<close> refuses axis names that repeat or that are not
  one for every axis of the tensor.
\<close>

record 'a Node =
  tensor :: "'a strided"
  name :: string
  axis_names :: "string list"

definition Node_new :: "'a strided \<Rightarrow> string \<Rightarrow> string list \<Rightarrow> error + 'a Node" where
  "Node_new arr nm names =
     (if \<not> distinct names then Inl ValueError
      else if length names \<noteq> length (shape arr) then Inl ValueError
      else Inr \<lparr>tensor = arr, name = nm, axis_names = names\<rparr>)"

text \<open>
  \<open>torch.tensor(a, dtype=dt)\<close> refuses a numpy array with a negative stride, or with a
  stride that is not a multiple of the element size (\<open>ValueError\<close>). Otherwise it makes
  a new contiguous tensor of dtype \<open>dt\<close> with the shape of \<open>a\<close> and every element of
  \<open>a\<close> converted to \<open>dt\<close>: an element that is already of dtype \<open>dt\<close> is copied as
  it is, and the conversion between two different dtypes is the parameter \<open>cast\<close>.
\<close>

definition torch_refuses :: "'a strided \<Rightarrow> bool" where
  "torch_refuses a =
     list_ex (\<lambda>s. s < 0 \<or> s mod int (itemsize (dtype a)) \<noteq> 0) (strides a)"

definition convert :: "(dtype \<Rightarrow> dtype \<Rightarrow> 'a \<Rightarrow> 'a) \<Rightarrow> dtype \<Rightarrow> dtype \<Rightarrow> 'a \<Rightarrow> 'a" where
  "convert cast src dst x = (if src = dst then x else cast src dst x)"

definition torch_tensor ::
  "(dtype \<Rightarrow> dtype \<Rightarrow> 'a \<Rightarrow> 'a) \<Rightarrow> 'a strided \<Rightarrow> dtype \<Rightarrow> error + 'a strided" where
  "torch_tensor cast a dt =
     (if torch_refuses a then Inl ValueError
      else Inr \<lparr>shape = shape a, dtype = dt,
                 data = map (convert cast (dtype a) dt) (data a),
                 strides = c_strides (itemsize dt) (shape a)\<rparr>)"

text \<open>
  \<open>[torch.tensor(node.tensor, dtype=torch.complex128) for node in TN_State]\<close>: the
  first refusal ends the comprehension.
\<close>

fun tensor_list ::
  "(dtype \<Rightarrow> dtype \<Rightarrow> 'a \<Rightarrow> 'a) \<Rightarrow> 'a Node list \<Rightarrow> error + 'a strided list" where
  "tensor_list cast [] = Inr []"
| "tensor_list cast (node # nodes) =
     (case torch_tensor cast (tensor node) Complex128 of
        Inl e \<Rightarrow> Inl e
      | Inr c \<Rightarrow>
         (case tensor_list cast nodes of
            Inl e \<Rightarrow> Inl e
          | Inr cs \<Rightarrow> Inr (c # cs)))"

text \<open>
  The loop over \<open>enumerate(TT_Compressed.cores)\<close>: core \<open>i\<close> becomes a node with the
  name and the axis names of \<open>TN_State[i]\<close>; \<open>TN_State[i]\<close> is an \<open>IndexError\<close> when
  there are more cores than nodes.
\<close>

fun TT_cores :: "'a Node list \<Rightarrow> nat \<Rightarrow> 'a strided list \<Rightarrow> error + 'a Node list" where
  "TT_cores TN_State i [] = Inr []"
| "TT_cores TN_State i (core # cores) =
     (case py_index TN_State i of
        Inl e \<Rightarrow> Inl e
      | Inr node \<Rightarrow>
         (case Node_new core (name node) (axis_names node) of
            Inl e \<Rightarrow> Inl e
          | Inr n \<Rightarrow>
             (case TT_cores TN_State (Suc i) cores of
                Inl e \<Rightarrow> Inl e
              | Inr ns \<Rightarrow> Inr (n # ns))))"

text \<open>
  The external decomposition, \<open>tntorch.Tensor(tensor_list)\<close> followed by
  \<open>round_tt(eps)\<close> and the read of its cores, is the parameter \<open>round_tt\<close> of the
  function: it returns the cores or raises.
\<close>

definition TT_State_Compression ::
  "(dtype \<Rightarrow> dtype \<Rightarrow> 'a \<Rightarrow> 'a) \<Rightarrow> ('e \<Rightarrow> 'a strided list \<Rightarrow> error + 'a strided list)
     \<Rightarrow> 'a Node list \<Rightarrow> 'e \<Rightarrow> error + 'a Node list" where
  "TT_State_Compression cast round_tt TN_State eps =
     (case tensor_list cast TN_State of
        Inl e \<Rightarrow> Inl e
      | Inr cs \<Rightarrow>
         (case round_tt eps cs of
            Inl e \<Rightarrow> Inl e
          | Inr cores \<Rightarrow> TT_cores TN_State 0 cores))"

text \<open>
  What tntorch does with the list: \<open>tntorch.Tensor\<close> takes the list it is given as its
  cores, and \<open>round_tt\<close> rewrites these cores in place, one for one, so that it returns as
  many cores as it was given, or raises. Whether it raises (\<open>fails\<close>) and what the new
  core at each position is (\<open>core\<close>) are parameters.
\<close>

definition tntorch_round ::
  "('e \<Rightarrow> 'a strided list \<Rightarrow> error option) \<Rightarrow> ('e \<Rightarrow> 'a strided list \<Rightarrow> nat \<Rightarrow> 'a strided)
     \<Rightarrow> 'e \<Rightarrow> 'a strided list \<Rightarrow> error + 'a strided list" where
  "tntorch_round fails core eps cs =
     (case fails eps cs of
        Some e \<Rightarrow> Inl e
      | None \<Rightarrow> Inr (map (core eps cs) [0..<length cs]))"

section \<open>Example inputs\<close>

text \<open>Concrete arrays, chains and stores at which the theorems below are instantiated.\<close>

definition example_tensor :: "nat ndarray" where
  "example_tensor = \<lparr>shape = [2, 3, 4, 5], dtype = Int64, data = [0..<120]\<rparr>"

definition chain_example :: "int Node list" where
  "chain_example =
     [\<lparr>tensor = \<lparr>shape = [1, 2, 2], dtype = Float32, data = [1, 0, 0, 1], strides = [16, 8, 4]\<rparr>,
        name = ''q0'', axis_names = [''left'', ''out'', ''right'']\<rparr>,
      \<lparr>tensor = \<lparr>shape = [2, 2, 1], dtype = Float32, data = [1, 0, 0, 1], strides = [8, 4, 4]\<rparr>,
        name = ''q1'', axis_names = [''l'', ''o'', ''r'']\<rparr>]"

text \<open>A chain whose only tensor is a reversed view.\<close>

definition reversed_example :: "int Node list" where
  "reversed_example =
     [\<lparr>tensor = \<lparr>shape = [3], dtype = Float64, data = [3, 2, 1], strides = [- 8]\<rparr>,
        name = ''r'', axis_names = [''x'']\<rparr>]"

text \<open>
  A decomposition that refuses every chain that is not all complex128, one that hands its
  chain back and one that always raises.
\<close>

definition strict_service :: "real \<Rightarrow> int strided list \<Rightarrow> error + int strided list" where
  "strict_service eps cs =
     (if list_all (\<lambda>c. dtype c = Complex128) cs then Inr cs else Inl DecompositionFailure)"

definition echo_service :: "real \<Rightarrow> int strided list \<Rightarrow> error + int strided list" where
  "echo_service eps cs = Inr cs"

definition failing_service :: "real \<Rightarrow> int strided list \<Rightarrow> error + int strided list" where
  "failing_service eps cs = Inl DecompositionFailure"

definition heap_example :: "nat heap" where
  "heap_example =
     \<lparr>arrays = [\<lparr>shape = [2, 3], dtype = Int64, data = [0, 1, 2, 3, 4, 5]\<rparr>],
      label_lists = [[''down2'', ''up1'']]\<rparr>"

section \<open>The axis dictionary and the target order\<close>

text \<open>
  The dictionary built from \<open>enumerate(bond_axes)\<close> holds exactly the labels of the list;
  for distinct labels it maps each label to its position.
\<close>

lemma enumerate_dict_notin:
  "x \<notin> set xs \<Longrightarrow> enumerate_dict i xs m x = m x"
  by (induction xs arbitrary: i m) auto

lemma enumerate_dict_defined:
  "(enumerate_dict i xs m x \<noteq> None) = (x \<in> set xs \<or> m x \<noteq> None)"
  by (induction xs arbitrary: i m) auto

lemma enumerate_dict_nth:
  "distinct xs \<Longrightarrow> k < length xs \<Longrightarrow> enumerate_dict i xs m (xs ! k) = Some (i + k)"
proof (induction xs arbitrary: i m k)
  case Nil
  then show ?case by simp
next
  case (Cons y ys)
  show ?case
  proof (cases k)
    case 0
    with Cons.prems show ?thesis by (simp add: enumerate_dict_notin)
  next
    case (Suc k')
    have "enumerate_dict (Suc i) ys (m(y \<mapsto> i)) (ys ! k') = Some (Suc i + k')"
      using Cons.prems Suc by (intro Cons.IH) auto
    then show ?thesis using Suc by simp
  qed
qed

lemma has_axis_iff: "has_axis bond_axes x = (x \<in> set bond_axes)"
  using enumerate_dict_defined [of 0 bond_axes Map.empty x]
  by (simp add: has_axis_def axis_map_def)

lemma axis_map_nth:
  "distinct bond_axes \<Longrightarrow> k < length bond_axes \<Longrightarrow> axis_map bond_axes (bond_axes ! k) = Some k"
  using enumerate_dict_nth [of bond_axes k 0 Map.empty] by (simp add: axis_map_def)

lemma axis_map_None: "x \<notin> set bond_axes \<Longrightarrow> axis_map bond_axes x = None"
  by (simp add: axis_map_def enumerate_dict_notin)

lemma order_entry_nth:
  assumes "distinct bond_axes" "k < length bond_axes"
  shows "order_entry bond_axes has_out (bond_axes ! k) = [k + out_offset has_out]"
  by (simp add: order_entry_def axis_map_nth [OF assms])

lemma order_entry_absent:
  "x \<notin> set bond_axes \<Longrightarrow> order_entry bond_axes has_out x = []"
  by (simp add: order_entry_def axis_map_None)

lemma in_order_entry:
  assumes "distinct bond_axes"
  shows "(a \<in> set (order_entry bond_axes has_out x))
           = (\<exists>k < length bond_axes. bond_axes ! k = x \<and> a = k + out_offset has_out)"
proof (cases "x \<in> set bond_axes")
  case True
  then obtain k where k: "k < length bond_axes" "bond_axes ! k = x"
    by (auto simp: in_set_conv_nth)
  have uniq: "j = k" if "j < length bond_axes" "bond_axes ! j = x" for j
  proof (rule ccontr)
    assume "j \<noteq> k"
    then have "bond_axes ! j \<noteq> bond_axes ! k"
      using assms that(1) k(1) unfolding distinct_conv_nth by blast
    then show False using that(2) k(2) by simp
  qed
  have e: "order_entry bond_axes has_out x = [k + out_offset has_out]"
    using order_entry_nth [OF assms k(1), of has_out] k(2) by simp
  show ?thesis
  proof
    assume "a \<in> set (order_entry bond_axes has_out x)"
    then have "a = k + out_offset has_out" by (simp add: e)
    then show "\<exists>j < length bond_axes. bond_axes ! j = x \<and> a = j + out_offset has_out"
      using k by blast
  next
    assume "\<exists>j < length bond_axes. bond_axes ! j = x \<and> a = j + out_offset has_out"
    then obtain j where j: "j < length bond_axes" "bond_axes ! j = x" "a = j + out_offset has_out"
      by blast
    then have "j = k" using uniq by blast
    then show "a \<in> set (order_entry bond_axes has_out x)" using j(3) by (simp add: e)
  qed
next
  case False
  then have "\<not> (\<exists>k < length bond_axes. bond_axes ! k = x \<and> a = k + out_offset has_out)"
    by auto
  with False show ?thesis by (simp add: order_entry_absent)
qed

lemma distinct_order_entry: "distinct (order_entry bond_axes has_out x)"
  by (simp add: order_entry_def split: option.splits)

lemma length_order_entry:
  "length (order_entry bond_axes has_out x) = (if has_axis bond_axes x then 1 else 0)"
  by (simp add: order_entry_def has_axis_def split: option.splits)

lemma order_entry_bound:
  assumes "distinct bond_axes" "a \<in> set (order_entry bond_axes has_out x)"
  shows "a < length bond_axes + out_offset has_out"
  using assms(2) unfolding in_order_entry [OF assms(1)] by auto

text \<open>
  For distinct labels of the four bond names, the target order is a permutation of the
  axes of the tensor.
\<close>

lemma set_target_order:
  assumes "valid_labels bond_axes"
  shows "set (target_order bond_axes has_out) = {0..<length bond_axes + out_offset has_out}"
proof (intro equalityI subsetI)
  have d: "distinct bond_axes" using assms by (simp add: valid_labels_def)
  fix a assume "a \<in> set (target_order bond_axes has_out)"
  then have "a < length bond_axes + out_offset has_out"
    unfolding target_order_def set_append Un_iff
    using order_entry_bound [OF d, of a has_out]
    by (auto simp: out_offset_def split: if_splits)
  then show "a \<in> {0..<length bond_axes + out_offset has_out}" by simp
next
  have d: "distinct bond_axes" using assms by (simp add: valid_labels_def)
  fix a assume a: "a \<in> {0..<length bond_axes + out_offset has_out}"
  show "a \<in> set (target_order bond_axes has_out)"
  proof (cases "a < out_offset has_out")
    case True
    then show ?thesis by (cases has_out) (simp_all add: target_order_def out_offset_def)
  next
    case False
    define k where "k = a - out_offset has_out"
    have k: "k < length bond_axes" and ak: "a = k + out_offset has_out"
      using a False by (auto simp: k_def)
    have mem: "a \<in> set (order_entry bond_axes has_out (bond_axes ! k))"
      using order_entry_nth [OF d k, of has_out] ak by simp
    have "bond_axes ! k \<in> {''up1'', ''up2'', ''down1'', ''down2''}"
      using assms k unfolding valid_labels_def by (meson nth_mem subsetD)
    then consider "bond_axes ! k = ''up1''" | "bond_axes ! k = ''up2''"
      | "bond_axes ! k = ''down1''" | "bond_axes ! k = ''down2''"
      by blast
    then show ?thesis
      using mem unfolding target_order_def set_append Un_iff by cases simp_all
  qed
qed

lemma order_entry_disjoint:
  assumes "distinct bond_axes" "x \<noteq> y"
  shows "set (order_entry bond_axes has_out x) \<inter> set (order_entry bond_axes has_out y) = {}"
proof (rule ccontr)
  assume "\<not> ?thesis"
  then obtain a where "a \<in> set (order_entry bond_axes has_out x)"
    and "a \<in> set (order_entry bond_axes has_out y)" by blast
  then obtain j k where "bond_axes ! j = x" "a = j + out_offset has_out"
    "bond_axes ! k = y" "a = k + out_offset has_out"
    unfolding in_order_entry [OF assms(1)] by blast
  then show False using assms(2) by simp
qed

lemma zero_notin_order_entry: "0 \<notin> set (order_entry bond_axes True x)"
  by (simp add: order_entry_def out_offset_def split: option.splits)

lemma distinct_target_order:
  assumes "distinct bond_axes"
  shows "distinct (target_order bond_axes has_out)"
proof -
  note dj = order_entry_disjoint [OF assms, of _ _ has_out]
  have "distinct (order_entry bond_axes has_out ''up1''
                  @ order_entry bond_axes has_out ''up2''
                  @ order_entry bond_axes has_out ''down1''
                  @ order_entry bond_axes has_out ''down2'')"
    by (simp add: distinct_order_entry dj Int_Un_distrib)
  then show ?thesis
    by (cases has_out) (simp_all add: target_order_def zero_notin_order_entry)
qed

lemma length_target_order:
  "length (target_order bond_axes has_out)
     = out_offset has_out
       + (if has_axis bond_axes ''up1'' then 1 else 0)
       + (if has_axis bond_axes ''up2'' then 1 else 0)
       + (if has_axis bond_axes ''down1'' then 1 else 0)
       + (if has_axis bond_axes ''down2'' then 1 else 0)"
  by (simp add: target_order_def length_order_entry out_offset_def)

lemma target_order_perm:
  assumes "valid_labels bond_axes"
  shows "mset (target_order bond_axes has_out) = mset [0..<length bond_axes + out_offset has_out]"
proof -
  have "distinct (target_order bond_axes has_out)"
    using assms by (simp add: distinct_target_order valid_labels_def)
  then have "mset (target_order bond_axes has_out)
               = mset_set (set (target_order bond_axes has_out))"
    by (simp only: mset_set_set)
  then show ?thesis
    by (simp only: set_target_order [OF assms] mset_upt)
qed

section \<open>Transposition and regrouping succeed on valid inputs\<close>

lemma check_axes_None:
  "(check_axes n seen axes = None)
     = ((\<forall>a \<in> set axes. a < n) \<and> distinct axes \<and> set axes \<inter> set seen = {})"
  by (induction axes arbitrary: seen) auto

lemma prod_list_permuted:
  assumes "mset p = mset [0..<length s]"
  shows "prod_list (map (\<lambda>a. s ! a) p) = prod_list (s :: nat list)"
proof -
  have "mset (map (\<lambda>a. s ! a) p) = image_mset (\<lambda>a. s ! a) (mset p)"
    by (simp only: mset_map)
  also have "\<dots> = image_mset (\<lambda>a. s ! a) (mset [0..<length s])"
    by (simp only: assms)
  also have "\<dots> = mset (map (\<lambda>a. s ! a) [0..<length s])"
    by (simp only: mset_map)
  also have "\<dots> = mset s" by (simp only: map_nth)
  finally have "prod_mset (mset (map (\<lambda>a. s ! a) p)) = prod_mset (mset s)" by simp
  then show ?thesis by (simp only: prod_mset_prod_list)
qed

lemma np_transpose_ok:
  assumes "mset axes = mset [0..<length (shape t)]"
  shows "np_transpose t axes
           = Inr (t\<lparr>shape := map (\<lambda>a. shape t ! a) axes,
                   data := map (\<lambda>j. data t ! ravel (shape t)
                                   (source_index axes (unravel (map (\<lambda>a. shape t ! a) axes) j)))
                             [0..<prod_list (map (\<lambda>a. shape t ! a) axes)]\<rparr>)"
proof -
  have len: "length axes = length (shape t)"
    using mset_eq_length [OF assms] by simp
  have "set axes = set [0..<length (shape t)]"
    using mset_eq_setD [OF assms] .
  moreover have "distinct axes"
    using mset_eq_imp_distinct_iff [OF assms] by simp
  ultimately have "check_axes (length (shape t)) [] axes = None"
    by (simp add: check_axes_None)
  then show ?thesis
    by (simp add: np_transpose_def len Let_def)
qed

lemma np_transpose_example:
  "np_transpose \<lparr>shape = [2, 3], dtype = Int64, data = [0, 1, 2, 3, 4, 5::nat]\<rparr> [1, 0]
     = Inr \<lparr>shape = [3, 2], dtype = Int64, data = [0, 3, 1, 4, 2, 5]\<rparr>"
  by code_simp

text \<open>
  The elements of a transposed array: the element at a valid index \<open>idx'\<close> of the
  result is the element of the argument at \<open>source_index axes idx'\<close>.
\<close>

lemma ravel_bound: "list_all2 (<) idx s \<Longrightarrow> ravel s idx < prod_list s"
proof (induction idx s rule: list_all2_induct)
  case Nil
  then show ?case by simp
next
  case (Cons i js n ns)
  have "i * prod_list ns + ravel ns js < i * prod_list ns + prod_list ns"
    using Cons.IH by simp
  also have "\<dots> = Suc i * prod_list ns" by simp
  also have "\<dots> \<le> n * prod_list ns"
    using Cons.hyps(1) by (intro mult_le_mono1) simp
  finally show ?case by simp
qed

lemma unravel_ravel: "list_all2 (<) idx s \<Longrightarrow> unravel s (ravel s idx) = idx"
proof (induction idx s rule: list_all2_induct)
  case Nil
  then show ?case by simp
next
  case (Cons i js n ns)
  have r: "ravel ns js < prod_list ns" using Cons.hyps(2) by (rule ravel_bound)
  then have "(i * prod_list ns + ravel ns js) div prod_list ns = i"
    and "(i * prod_list ns + ravel ns js) mod prod_list ns = ravel ns js"
    by simp_all
  then show ?case using Cons.IH by simp
qed

lemma index_of_correct:
  "a \<in> set xs \<Longrightarrow> index_of a xs < length xs \<and> xs ! index_of a xs = a"
  by (induction xs) auto

lemma item_np_transpose:
  assumes "mset axes = mset [0..<length (shape t)]"
    and "np_transpose t axes = Inr t'"
    and "list_all2 (<) idx' (shape t')"
  shows "item t' idx' = Inr (data t ! ravel (shape t) (source_index axes idx'))"
    and "item t (source_index axes idx') = Inr (data t ! ravel (shape t) (source_index axes idx'))"
proof -
  let ?s' = "map (\<lambda>a. shape t ! a) axes"
  have t': "shape t' = ?s'"
    "data t' = map (\<lambda>j. data t ! ravel (shape t) (source_index axes (unravel ?s' j)))
                 [0..<prod_list ?s']"
    using assms(2) unfolding np_transpose_ok [OF assms(1)] by auto
  have len: "length axes = length (shape t)" using mset_eq_length [OF assms(1)] by simp
  have li: "length idx' = length axes"
    using list_all2_lengthD [OF assms(3)] by (simp add: t'(1))
  have b: "ravel ?s' idx' < prod_list ?s'"
    using ravel_bound [OF assms(3)] by (simp add: t'(1))
  have u: "unravel ?s' (ravel ?s' idx') = idx'"
    using unravel_ravel [OF assms(3)] by (simp add: t'(1))
  have "data t' ! ravel ?s' idx' = data t ! ravel (shape t) (source_index axes idx')"
    using b by (simp add: t'(2) u)
  then show "item t' idx' = Inr (data t ! ravel (shape t) (source_index axes idx'))"
    using assms(3) li by (simp add: item_def t'(1))
  have "source_index axes idx' ! a < shape t ! a" if "a < length (shape t)" for a
  proof -
    have "a \<in> set axes" using mset_eq_setD [OF assms(1)] that by simp
    then have k: "index_of a axes < length axes" "axes ! index_of a axes = a"
      using index_of_correct by blast+
    have "idx' ! index_of a axes < ?s' ! index_of a axes"
      using assms(3) k(1) li by (simp add: t'(1) list_all2_conv_all_nth)
    then show ?thesis using k that by (simp add: source_index_def len)
  qed
  then have "list_all2 (<) (source_index axes idx') (shape t)"
    by (simp add: list_all2_conv_all_nth source_index_def len)
  then show "item t (source_index axes idx')
               = Inr (data t ! ravel (shape t) (source_index axes idx'))"
    by (simp add: item_def source_index_def len)
qed

lemma reorder_ok:
  assumes "valid_input t bond_axes has_out"
  shows "\<exists>t1. reorder t bond_axes has_out = Inr t1
           \<and> shape t1 = map (\<lambda>a. shape t ! a) (target_order bond_axes has_out)"
proof -
  have p: "mset (target_order bond_axes has_out) = mset [0..<length (shape t)]"
    using assms target_order_perm [of bond_axes has_out] by (simp add: valid_input_def)
  show ?thesis
  proof (cases "target_order bond_axes has_out = current_order t")
    case True
    then have "map (\<lambda>a. shape t ! a) (target_order bond_axes has_out) = shape t"
      by (simp add: current_order_def map_nth)
    with True show ?thesis by (simp add: reorder_def)
  next
    case False
    then show ?thesis by (simp add: reorder_def np_transpose_ok [OF p])
  qed
qed

lemma reorder_wf:
  assumes "reorder t bond_axes has_out = Inr t1" and "wf_ndarray t"
  shows "wf_ndarray t1"
  using assms
  by (auto simp: reorder_def np_transpose_def wf_ndarray_def size_of_def Let_def
      split: if_splits option.splits)

lemma take2_drop:
  assumes "idx + 2 \<le> length s"
  shows "take 2 (drop idx s) = [s ! idx, s ! (idx + 1)]"
proof -
  have "drop idx s = s ! idx # drop (Suc idx) s"
    using assms by (simp add: Cons_nth_drop_Suc)
  moreover have "drop (Suc idx) s = s ! (Suc idx) # drop (Suc (Suc idx)) s"
    using assms by (simp add: Cons_nth_drop_Suc)
  ultimately show ?thesis by (simp add: numeral_2_eq_2)
qed

lemma take1_drop:
  assumes "idx + 1 \<le> length s"
  shows "take 1 (drop idx s) = [s ! idx]"
proof -
  have "drop idx s = s ! idx # drop (Suc idx) s"
    using assms by (simp add: Cons_nth_drop_Suc)
  then show ?thesis by simp
qed

lemma group_shape_ok:
  assumes "idx + group_count has1 has2 \<le> length s"
  shows "\<exists>g. group_shape s idx has1 has2 = Inr g
           \<and> prod_list g = prod_list (take (group_count has1 has2) (drop idx s))
           \<and> length g = (if has1 \<or> has2 then 1 else 0)"
proof (cases "has1 \<and> has2")
  case True
  then have c: "group_count has1 has2 = 2" by (simp add: group_count_def)
  then have le: "idx + 2 \<le> length s" using assms by simp
  have "prod_list (take 2 (drop idx s)) = s ! idx * s ! (idx + 1)"
    by (simp only: take2_drop [OF le]) simp
  moreover have "group_shape s idx has1 has2 = Inr [s ! idx * s ! (idx + 1)]"
    using True le by (simp add: group_shape_def py_index_def)
  ultimately show ?thesis unfolding c using True by simp
next
  case False
  show ?thesis
  proof (cases "has1 \<or> has2")
    case True
    then have c: "group_count has1 has2 = 1" using False by (auto simp: group_count_def)
    then have le: "idx + 1 \<le> length s" using assms by simp
    have "prod_list (take 1 (drop idx s)) = s ! idx"
      by (simp only: take1_drop [OF le]) simp
    moreover have "group_shape s idx has1 has2 = Inr [s ! idx]"
      using True False le by (auto simp: group_shape_def py_index_def)
    ultimately show ?thesis unfolding c using True by simp
  next
    case False
    then show ?thesis by (simp add: group_shape_def group_count_def)
  qed
qed

lemma new_shape_ok:
  assumes "length s = out_offset has_out
             + group_count (has_axis bond_axes ''up1'') (has_axis bond_axes ''up2'')
             + group_count (has_axis bond_axes ''down1'') (has_axis bond_axes ''down2'')"
  shows "\<exists>ns. new_shape s bond_axes has_out = Inr ns
           \<and> prod_list ns = prod_list s
           \<and> length ns = length (final_axes bond_axes has_out)"
proof -
  define ku where "ku = group_count (has_axis bond_axes ''up1'') (has_axis bond_axes ''up2'')"
  define kd where "kd = group_count (has_axis bond_axes ''down1'') (has_axis bond_axes ''down2'')"
  define off where "off = out_offset has_out"
  have len: "length s = off + ku + kd" using assms by (simp add: ku_def kd_def off_def)
  have didx: "down_idx bond_axes has_out = off + ku"
    by (simp add: down_idx_def ku_def off_def group_count_def)
  obtain up where up: "group_shape s (up_idx has_out)
        (has_axis bond_axes ''up1'') (has_axis bond_axes ''up2'') = Inr up"
      "prod_list up = prod_list (take ku (drop off s))"
      "length up = (if has_axis bond_axes ''up1'' \<or> has_axis bond_axes ''up2'' then 1 else 0)"
    using group_shape_ok [of off "has_axis bond_axes ''up1''" "has_axis bond_axes ''up2''" s] len
    by (auto simp: ku_def up_idx_def off_def)
  obtain dn where dn: "group_shape s (down_idx bond_axes has_out)
        (has_axis bond_axes ''down1'') (has_axis bond_axes ''down2'') = Inr dn"
      "prod_list dn = prod_list (take kd (drop (off + ku) s))"
      "length dn = (if has_axis bond_axes ''down1'' \<or> has_axis bond_axes ''down2'' then 1 else 0)"
    using group_shape_ok [of "off + ku" "has_axis bond_axes ''down1''"
        "has_axis bond_axes ''down2''" s] len
    by (auto simp: kd_def didx)
  obtain op where op: "(if has_out
            then (case py_index s 0 of Inl e \<Rightarrow> Inl e | Inr n \<Rightarrow> Inr [n])
            else Inr []) = Inr op" "prod_list op = prod_list (take off s)"
      "length op = (if has_out then 1 else 0)"
  proof (cases has_out)
    case True
    then have o1: "off = 1" by (simp add: off_def out_offset_def)
    then have l1: "0 + 1 \<le> length s" using len by simp
    have "take 1 (drop 0 s) = [s ! 0]" by (rule take1_drop [OF l1])
    then have p: "prod_list [s ! 0] = prod_list (take off s)" by (simp add: o1)
    have "(if has_out
            then (case py_index s 0 of Inl e \<Rightarrow> Inl e | Inr n \<Rightarrow> Inr [n])
            else Inr []) = Inr [s ! 0]"
      using True l1 by (cases s) (simp_all add: py_index_def)
    moreover note p
    moreover have "length [s ! 0] = (if has_out then 1 else 0)" using True by simp
    ultimately show ?thesis by (rule that)
  next
    case False
    then show ?thesis using that [of "[]"] by (simp add: off_def out_offset_def)
  qed
  have "s = take off s @ take ku (drop off s) @ take kd (drop (off + ku) s)"
  proof -
    have "take kd (drop (off + ku) s) = drop (off + ku) s" using len by simp
    moreover have "drop off s = take ku (drop off s) @ drop ku (drop off s)"
      by (rule append_take_drop_id [symmetric])
    moreover have "drop ku (drop off s) = drop (off + ku) s" by (simp add: add.commute)
    moreover have "s = take off s @ drop off s"
      by (rule append_take_drop_id [symmetric])
    ultimately show ?thesis by metis
  qed
  then have "prod_list s = prod_list (take off s) * prod_list (take ku (drop off s))
                 * prod_list (take kd (drop (off + ku) s))"
    by (metis prod_list.append mult.assoc)
  then have "prod_list (op @ up @ dn) = prod_list s"
    using op(2) up(2) dn(2) by (simp add: mult.assoc)
  moreover have "new_shape s bond_axes has_out = Inr (op @ up @ dn)"
    unfolding new_shape_def using op(1) up(1) dn(1) by simp
  moreover have "length (op @ up @ dn) = length (final_axes bond_axes has_out)"
    using op(3) up(3) dn(3) by (simp add: final_axes_def)
  ultimately show ?thesis by blast
qed

lemma valid_input_rank:
  assumes "valid_input t bond_axes has_out"
  shows "length (shape t) = out_offset has_out
             + group_count (has_axis bond_axes ''up1'') (has_axis bond_axes ''up2'')
             + group_count (has_axis bond_axes ''down1'') (has_axis bond_axes ''down2'')"
proof -
  have v: "valid_labels bond_axes"
    and r: "length bond_axes + out_offset has_out = length (shape t)"
    using assms by (simp_all add: valid_input_def)
  have "length (target_order bond_axes has_out) = length bond_axes + out_offset has_out"
    using mset_eq_length [OF target_order_perm [OF v, of has_out]] by simp
  then show ?thesis
    using r by (simp add: length_target_order group_count_def)
qed

lemma process_axes_ok:
  assumes "valid_input t bond_axes has_out"
  obtains t1 ns where
    "reorder t bond_axes has_out = Inr t1"
    "new_shape (shape t1) bond_axes has_out = Inr ns"
    "prod_list ns = size_of t1"
    "size_of t1 = size_of t"
    "length ns = length (final_axes bond_axes has_out)"
    "process_axes t bond_axes has_out = Inr (t1\<lparr>shape := ns\<rparr>, final_axes bond_axes has_out)"
proof -
  have p: "mset (target_order bond_axes has_out) = mset [0..<length (shape t)]"
    using assms target_order_perm [of bond_axes has_out] by (simp add: valid_input_def)
  obtain t1 where t1: "reorder t bond_axes has_out = Inr t1"
    "shape t1 = map (\<lambda>a. shape t ! a) (target_order bond_axes has_out)"
    using reorder_ok [OF assms] by blast
  have sz: "size_of t1 = size_of t"
    by (simp add: size_of_def t1(2) prod_list_permuted [OF p])
  have "length (shape t1) = length (shape t)"
    using mset_eq_length [OF p] by (simp add: t1(2))
  then obtain ns where ns: "new_shape (shape t1) bond_axes has_out = Inr ns"
    "prod_list ns = prod_list (shape t1)"
    "length ns = length (final_axes bond_axes has_out)"
    using new_shape_ok [of "shape t1" has_out bond_axes] valid_input_rank [OF assms] by auto
  have "process_axes t bond_axes has_out = Inr (t1\<lparr>shape := ns\<rparr>, final_axes bond_axes has_out)"
    by (simp add: process_axes_def t1(1) ns(1) np_reshape_def ns(2) size_of_def)
  with t1(1) ns(1) ns(2) sz ns(3) show ?thesis
    by (intro that [of t1 ns]) (simp_all add: size_of_def)
qed

lemma final_axes_set:
  "final_axes bond_axes has_out =
     (if has_out then [''out''] else [])
     @ (if ''up1'' \<in> set bond_axes \<or> ''up2'' \<in> set bond_axes then [''up''] else [])
     @ (if ''down1'' \<in> set bond_axes \<or> ''down2'' \<in> set bond_axes then [''down''] else [])"
  by (simp add: final_axes_def has_axis_iff)

section \<open>The claims about process_axes\<close>

lemma has_axis_merge:
  "has_axis [''up1'', ''up2'', ''down1''] ''up1''"
  "has_axis [''up1'', ''up2'', ''down1''] ''up2''"
  "has_axis [''up1'', ''up2'', ''down1''] ''down1''"
  "\<not> has_axis [''up1'', ''up2'', ''down1''] ''down2''"
  by (simp_all add: has_axis_iff)

lemma target_order_merge: "target_order [''up1'', ''up2'', ''down1''] True = [0, 1, 2, 3]"
  by (simp add: target_order_def order_entry_def axis_map_def out_offset_def)

lemma process_axes_merge:
  assumes "shape t = [2, 3, 4, 5]"
  shows "process_axes t [''up1'', ''up2'', ''down1''] True
           = Inr (t\<lparr>shape := [2, 12, 5]\<rparr>, [''out'', ''up'', ''down''])"
proof -
  have "current_order t = [0, 1, 2, 3]"
    using assms by (simp add: current_order_def upt_rec)
  then have "reorder t [''up1'', ''up2'', ''down1''] True = Inr t"
    by (simp add: reorder_def target_order_merge)
  moreover have "new_shape [2, 3, 4, 5] [''up1'', ''up2'', ''down1''] True = Inr [2, 12, 5]"
    by (simp add: new_shape_def group_shape_def has_axis_merge up_idx_def down_idx_def
        out_offset_def py_index_def)
  moreover have "np_reshape t [2, 12, 5] = Inr (t\<lparr>shape := [2, 12, 5]\<rparr>)"
    using assms by (simp add: np_reshape_def size_of_def)
  ultimately show ?thesis
    using assms by (simp add: process_axes_def final_axes_def has_axis_merge)
qed

text \<open>
  C1. For every tensor of shape \<open>(2, 3, 4, 5)\<close>, \<open>process_axes\<close> with the labels
  \<open>['up1', 'up2', 'down1']\<close> and \<open>has_out = True\<close> returns a tensor of shape
  \<open>(2, 12, 5)\<close> with the axis names \<open>['out', 'up', 'down']\<close>, and at all valid indices
  \<open>output[o, i, d] = input[o, i // 4, i % 4, d]\<close>: the merged axis is in row-major order,
  \<open>up1\<close> varying slower than \<open>up2\<close>.
\<close>

theorem process_axes_merge_correct:
  assumes "shape t = [2, 3, 4, 5]"
  shows "\<exists>t'. process_axes t [''up1'', ''up2'', ''down1''] True
                 = Inr (t', [''out'', ''up'', ''down''])
          \<and> shape t' = [2, 12, 5]
          \<and> (\<forall>o' i d. o' < 2 \<and> i < 12 \<and> d < 5 \<longrightarrow>
                (\<exists>v. item t' [o', i, d] = Inr v
                    \<and> item t [o', i div 4, i mod 4, d] = Inr v))"
proof -
  let ?t' = "t\<lparr>shape := [2, 12, 5]\<rparr>"
  have "\<exists>v. item ?t' [o', i, d] = Inr v \<and> item t [o', i div 4, i mod 4, d] = Inr v"
    if "o' < 2" "i < 12" "d < 5" for o' i d
  proof -
    have e: "(i div 4) * 20 + (i mod 4) * 5 = i * 5" by presburger
    have "ravel [2, 3, 4, 5] [o', i div 4, i mod 4, d]
            = o' * 60 + ((i div 4) * 20 + (i mod 4) * 5) + d"
      by simp
    also have "\<dots> = o' * 60 + i * 5 + d" by (simp only: e)
    finally have r: "ravel [2, 3, 4, 5] [o', i div 4, i mod 4, d] = o' * 60 + i * 5 + d" .
    have r': "ravel [2, 12, 5] [o', i, d] = o' * 60 + i * 5 + d" by simp
    have "i div 4 < 3" using that by simp
    then have "item t [o', i div 4, i mod 4, d] = Inr (data t ! (o' * 60 + i * 5 + d))"
      using assms that unfolding item_def r [symmetric] by simp
    moreover have "item ?t' [o', i, d] = Inr (data t ! (o' * 60 + i * 5 + d))"
      using that unfolding item_def r' [symmetric] by simp
    ultimately show ?thesis by simp
  qed
  then show ?thesis using process_axes_merge [OF assms] by simp
qed

theorem process_axes_merge_correct_witness:
  "shape example_tensor = [2, 3, 4, 5]
   \<and> (\<exists>t'. process_axes example_tensor [''up1'', ''up2'', ''down1''] True
                 = Inr (t', [''out'', ''up'', ''down''])
          \<and> shape t' = [2, 12, 5]
          \<and> item t' [1, 7, 3] = Inr 98
          \<and> item example_tensor [1, 1, 3, 3] = Inr 98)"
proof -
  have s: "shape example_tensor = [2, 3, 4, 5]" by (simp add: example_tensor_def)
  obtain t' where t': "process_axes example_tensor [''up1'', ''up2'', ''down1''] True
                 = Inr (t', [''out'', ''up'', ''down''])" "shape t' = [2, 12, 5]"
     and all: "\<forall>o' i d. o' < 2 \<and> i < 12 \<and> d < 5 \<longrightarrow>
                (\<exists>v. item t' [o', i, d] = Inr v
                    \<and> item example_tensor [o', i div 4, i mod 4, d] = Inr v)"
    using process_axes_merge_correct [OF s] by blast
  have "(1::nat) < 2 \<and> (7::nat) < 12 \<and> (3::nat) < 5" by simp
  then obtain v where v: "item t' [1, 7, 3] = Inr v"
      "item example_tensor [1, 7 div 4, 7 mod 4, 3] = Inr v"
    using all by blast
  have "item example_tensor [1, 1, 3, 3] = Inr 98"
    by (simp add: item_def example_tensor_def)
  with v have "item t' [1, 7, 3] = Inr 98" by simp
  with s t' \<open>item example_tensor [1, 1, 3, 3] = Inr 98\<close> show ?thesis by blast
qed

lemma unknown_label_short:
  assumes "x \<in> set bond_axes" "x \<notin> {''up1'', ''up2'', ''down1'', ''down2''}"
  shows "length (target_order bond_axes has_out) < length bond_axes + out_offset has_out"
proof -
  let ?V = "[''up1'', ''up2'', ''down1'', ''down2'']"
  let ?F = "filter (\<lambda>n. n \<in> set bond_axes) ?V"
  have "length (target_order bond_axes has_out) = out_offset has_out + length ?F"
    by (simp add: length_target_order has_axis_iff)
  moreover have "distinct ?F" by simp
  then have "length ?F = card (set ?F)" by (simp only: distinct_card)
  moreover have "set ?F \<subseteq> set bond_axes - {x}" using assms(2) by auto
  then have "card (set ?F) \<le> card (set bond_axes - {x})"
    by (intro card_mono) simp_all
  moreover have "card (set bond_axes - {x}) < card (set bond_axes)"
    using assms(1) by (intro card_Diff1_less) simp_all
  moreover have "card (set bond_axes) \<le> length bond_axes" by (rule card_length)
  ultimately show ?thesis by linarith
qed

text \<open>
  C2. As stated (a label outside the four bond names always raises a dedicated
  \<open>InvalidAxisLabel\<close>), the claim fails: \<open>process_axes\<close> never inspects the labels, and
  with one axis, the label \<open>'side1'\<close> and \<open>has_out = True\<close> it returns a result.
  What holds: when the labels are one
  for every axis of the tensor but the \<open>out\<close> axis and one of them is outside the four
  bond names, the target order is shorter than the rank and numpy's transpose raises
  \<open>ValueError\<close>, so no result is produced.
\<close>

theorem process_axes_unknown_label:
  assumes "x \<in> set bond_axes" "x \<notin> {''up1'', ''up2'', ''down1'', ''down2''}"
    and "length bond_axes + out_offset has_out = length (shape t)"
  shows "process_axes t bond_axes has_out = Inl ValueError"
proof -
  have l: "length (target_order bond_axes has_out) < length (shape t)"
    using unknown_label_short [OF assms(1,2), of has_out] assms(3) by simp
  then have "target_order bond_axes has_out \<noteq> current_order t"
    by (auto simp: current_order_def)
  then have "reorder t bond_axes has_out = Inl ValueError"
    using l by (simp add: reorder_def np_transpose_def)
  then show ?thesis by (simp add: process_axes_def)
qed

theorem process_axes_unknown_label_witness:
  "''side1'' \<in> set [''up1'', ''side1'']
   \<and> ''side1'' \<notin> {''up1'', ''up2'', ''down1'', ''down2''}
   \<and> process_axes \<lparr>shape = [2, 3], dtype = Float64, data = [0 ..< 6]\<rparr> [''up1'', ''side1''] False
       = Inl ValueError"
  using process_axes_unknown_label [of "''side1''" "[''up1'', ''side1'']" False
      "\<lparr>shape = [2, 3], dtype = Float64, data = [0 ..< 6]\<rparr>"]
  by (simp add: out_offset_def)

theorem unknown_label_silent_counterexample:
  "''side1'' \<in> set [''side1'']
   \<and> ''side1'' \<notin> {''up1'', ''up2'', ''down1'', ''down2''}
   \<and> process_axes \<lparr>shape = [3], dtype = Float64, data = [1, 2, 3 :: int]\<rparr> [''side1''] True
       = Inr (\<lparr>shape = [3], dtype = Float64, data = [1, 2, 3]\<rparr>, [''out''])"
  by (simp add: process_axes_def reorder_def target_order_def order_entry_def axis_map_def
      current_order_def new_shape_def group_shape_def has_axis_def up_idx_def down_idx_def
      out_offset_def py_index_def np_reshape_def size_of_def final_axes_def)

text \<open>
  C3. For every valid input (distinct labels of the four bond names, one for every
  axis but the \<open>out\<close> axis), \<open>process_axes\<close> returns the axis names \<open>['out']\<close> (if
  \<open>has_out\<close>) followed by \<open>['up']\<close> (if \<open>up1\<close> or \<open>up2\<close> is present) followed by
  \<open>['down']\<close> (if \<open>down1\<close> or \<open>down2\<close> is present), and the rank of the returned
  tensor is the length of that list.
\<close>

theorem process_axes_final_axes:
  assumes "valid_input t bond_axes has_out"
  shows "\<exists>t'. process_axes t bond_axes has_out
            = Inr (t', (if has_out then [''out''] else [])
                       @ (if ''up1'' \<in> set bond_axes \<or> ''up2'' \<in> set bond_axes
                          then [''up''] else [])
                       @ (if ''down1'' \<in> set bond_axes \<or> ''down2'' \<in> set bond_axes
                          then [''down''] else []))
          \<and> length (shape t')
              = (if has_out then 1 else 0)
                + (if ''up1'' \<in> set bond_axes \<or> ''up2'' \<in> set bond_axes then 1 else 0)
                + (if ''down1'' \<in> set bond_axes \<or> ''down2'' \<in> set bond_axes then 1 else 0)"
proof -
  obtain t1 ns where
    l: "length ns = length (final_axes bond_axes has_out)" and
    r: "process_axes t bond_axes has_out = Inr (t1\<lparr>shape := ns\<rparr>, final_axes bond_axes has_out)"
    using process_axes_ok [OF assms] by metis
  have "length (shape (t1\<lparr>shape := ns\<rparr>))
              = (if has_out then 1 else 0)
                + (if ''up1'' \<in> set bond_axes \<or> ''up2'' \<in> set bond_axes then 1 else 0)
                + (if ''down1'' \<in> set bond_axes \<or> ''down2'' \<in> set bond_axes then 1 else 0)"
    using l by (simp add: final_axes_set)
  then show ?thesis using r unfolding final_axes_set by blast
qed

theorem process_axes_final_axes_witness:
  "valid_input \<lparr>shape = [6, 7], dtype = Float64, data = [0..<42]\<rparr> [''down2'', ''up1''] False
   \<and> (\<exists>t'. process_axes \<lparr>shape = [6, 7], dtype = Float64, data = [0..<42]\<rparr>
                [''down2'', ''up1''] False = Inr (t', [''up'', ''down''])
          \<and> length (shape t') = 2)"
  using process_axes_final_axes [of "\<lparr>shape = [6, 7], dtype = Float64, data = [0..<42]\<rparr>"
      "[''down2'', ''up1'']" False]
  by (simp add: valid_input_def valid_labels_def out_offset_def numeral_2_eq_2)

text \<open>
  C4. For every valid input, \<open>process_axes\<close> returns a tensor whose shape has the
  same product as the shape of the input; for an input that holds as many elements as its
  shape says, so does the output, and it holds as many elements as the input.
\<close>

theorem process_axes_size:
  assumes "valid_input t bond_axes has_out"
  shows "\<exists>t' names. process_axes t bond_axes has_out = Inr (t', names)
           \<and> prod_list (shape t') = prod_list (shape t)
           \<and> (wf_ndarray t \<longrightarrow> wf_ndarray t' \<and> length (data t') = length (data t))"
proof -
  obtain t1 ns where
    r: "reorder t bond_axes has_out = Inr t1" and
    s: "prod_list ns = size_of t1" "size_of t1 = size_of t" and
    p: "process_axes t bond_axes has_out = Inr (t1\<lparr>shape := ns\<rparr>, final_axes bond_axes has_out)"
    using process_axes_ok [OF assms] by metis
  have "wf_ndarray (t1\<lparr>shape := ns\<rparr>) \<and> length (data (t1\<lparr>shape := ns\<rparr>)) = length (data t)"
    if "wf_ndarray t"
    using reorder_wf [OF r that] that s by (simp add: wf_ndarray_def size_of_def)
  then show ?thesis using p s by (simp add: size_of_def)
qed

theorem process_axes_size_witness:
  "valid_input example_tensor [''down1'', ''up2'', ''up1''] True
   \<and> wf_ndarray example_tensor
   \<and> (\<exists>t' names. process_axes example_tensor [''down1'', ''up2'', ''up1''] True = Inr (t', names)
          \<and> prod_list (shape t') = 120 \<and> length (data t') = 120)"
proof -
  have v: "valid_input example_tensor [''down1'', ''up2'', ''up1''] True"
    by (simp add: valid_input_def valid_labels_def out_offset_def example_tensor_def)
  have w: "wf_ndarray example_tensor"
    by (simp add: wf_ndarray_def size_of_def example_tensor_def)
  have "prod_list (shape example_tensor) = 120" "length (data example_tensor) = 120"
    by (simp_all add: example_tensor_def)
  then show ?thesis
    using v w process_axes_size [OF v] by metis
qed

text \<open>
  C5. For every tensor of rank 3, \<open>process_axes\<close> with the labels
  \<open>['up1', 'down1']\<close> and \<open>has_out = True\<close> returns the input tensor itself (same
  shape, same elements) with the axis names \<open>['out', 'up', 'down']\<close>.
\<close>

theorem process_axes_canonical:
  assumes "length (shape t) = 3"
  shows "process_axes t [''up1'', ''down1''] True = Inr (t, [''out'', ''up'', ''down''])"
proof -
  obtain a b c where s: "shape t = [a, b, c]"
    using assms by (auto simp: length_Suc_conv numeral_3_eq_3)
  have h: "has_axis [''up1'', ''down1''] ''up1''" "\<not> has_axis [''up1'', ''down1''] ''up2''"
    "has_axis [''up1'', ''down1''] ''down1''" "\<not> has_axis [''up1'', ''down1''] ''down2''"
    by (simp_all add: has_axis_iff)
  have "target_order [''up1'', ''down1''] True = [0, 1, 2]"
    by (simp add: target_order_def order_entry_def axis_map_def out_offset_def)
  moreover have "current_order t = [0, 1, 2]"
    by (simp add: current_order_def s upt_rec)
  ultimately have "reorder t [''up1'', ''down1''] True = Inr t"
    by (simp add: reorder_def)
  moreover have "new_shape [a, b, c] [''up1'', ''down1''] True = Inr [a, b, c]"
    by (simp add: new_shape_def group_shape_def h up_idx_def down_idx_def
        out_offset_def py_index_def)
  moreover have "np_reshape t [a, b, c] = Inr t"
    using s by (simp add: np_reshape_def size_of_def)
  ultimately show ?thesis
    by (simp add: process_axes_def s final_axes_def h)
qed

theorem process_axes_canonical_witness:
  "length (shape \<lparr>shape = [2, 3, 2], dtype = Float64, data = [0..<12]\<rparr>) = 3
   \<and> process_axes \<lparr>shape = [2, 3, 2], dtype = Float64, data = [0..<12]\<rparr> [''up1'', ''down1''] True
       = Inr (\<lparr>shape = [2, 3, 2], dtype = Float64, data = [0..<12]\<rparr>, [''out'', ''up'', ''down''])"
  using process_axes_canonical [of "\<lparr>shape = [2, 3, 2], dtype = Float64, data = [0..<12]\<rparr>"]
  by simp

lemma index_of_nth:
  "distinct xs \<Longrightarrow> i < length xs \<Longrightarrow> index_of (xs ! i) xs = i"
proof (induction xs arbitrary: i)
  case Nil
  then show ?case by simp
next
  case (Cons y ys)
  then show ?case by (cases i) auto
qed

lemma source_index_id:
  assumes "length idx = n"
  shows "source_index [0..<n] idx = idx"
proof -
  have "index_of a [0..<n] = a" if "a < n" for a
    using index_of_nth [of "[0..<n]" a] that by simp
  then have "source_index [0..<n] idx = map (\<lambda>a. idx ! a) [0..<n]"
    by (simp add: source_index_def)
  then show ?thesis using map_nth [of idx] assms by simp
qed

lemma length_unravel: "length (unravel s j) = length s"
  by (induction s arbitrary: j) simp_all

lemma ravel_unravel: "j < prod_list s \<Longrightarrow> ravel s (unravel s j) = j"
proof (induction s arbitrary: j)
  case Nil
  then show ?case by simp
next
  case (Cons n ns)
  then have pos: "0 < prod_list ns" by (cases "prod_list ns") simp_all
  then have "j mod prod_list ns < prod_list ns" by simp
  then have "ravel ns (unravel ns (j mod prod_list ns)) = j mod prod_list ns"
    by (rule Cons.IH)
  then show ?case by simp
qed

lemma np_transpose_identity:
  assumes "wf_ndarray t"
  shows "np_transpose t [0..<length (shape t)] = Inr t"
proof -
  let ?r = "length (shape t)"
  have sh: "map (\<lambda>a. shape t ! a) [0..<?r] = shape t" by (rule map_nth)
  have "data t ! ravel (shape t) (source_index [0..<?r] (unravel (shape t) j)) = data t ! j"
    if "j < prod_list (shape t)" for j
    using that by (simp add: source_index_id length_unravel ravel_unravel)
  then have "map (\<lambda>j. data t ! ravel (shape t) (source_index [0..<?r] (unravel (shape t) j)))
               [0..<prod_list (shape t)]
             = map (\<lambda>j. data t ! j) [0..<prod_list (shape t)]"
    by simp
  also have "\<dots> = data t"
    using assms map_nth [of "data t"] by (simp add: wf_ndarray_def size_of_def)
  finally have d: "map (\<lambda>j. data t ! ravel (shape t) (source_index [0..<?r] (unravel (shape t) j)))
               [0..<prod_list (shape t)] = data t" .
  have "np_transpose t [0..<?r]
          = Inr (t\<lparr>shape := shape t, data := data t\<rparr>)"
    using np_transpose_ok [of "[0..<?r]" t] by (simp only: sh d)
  then show ?thesis by simp
qed

text \<open>
  C6. The variant that always transposes (\<open>process_axes_always\<close>) and the code,
  which skips the transposition when the target order is the current order, return the same
  result (tensor, shape and axis names, or the same error) on every array that holds as many
  elements as its shape says, whatever the labels.
\<close>

theorem skip_transpose_equivalent:
  assumes "wf_ndarray t"
  shows "process_axes_always t bond_axes has_out = process_axes t bond_axes has_out"
proof (cases "target_order bond_axes has_out = current_order t")
  case True
  then have "np_transpose t (target_order bond_axes has_out) = Inr t"
    using np_transpose_identity [OF assms] by (simp add: current_order_def)
  moreover have "reorder t bond_axes has_out = Inr t"
    using True by (simp add: reorder_def)
  ultimately show ?thesis by (simp add: process_axes_always_def process_axes_def)
next
  case False
  then have "reorder t bond_axes has_out = np_transpose t (target_order bond_axes has_out)"
    by (simp add: reorder_def)
  then show ?thesis by (simp add: process_axes_always_def process_axes_def)
qed

theorem skip_transpose_equivalent_witness:
  "wf_ndarray \<lparr>shape = [2, 3], dtype = Float32, data = [0..<6]\<rparr>
   \<and> process_axes_always \<lparr>shape = [2, 3], dtype = Float32, data = [0..<6]\<rparr> [''down1''] True
       = process_axes \<lparr>shape = [2, 3], dtype = Float32, data = [0..<6]\<rparr> [''down1''] True
   \<and> process_axes \<lparr>shape = [2, 3], dtype = Float32, data = [0..<6]\<rparr> [''down1''] True
       = Inr (\<lparr>shape = [2, 3], dtype = Float32, data = [0..<6]\<rparr>, [''out'', ''down''])"
proof -
  have w: "wf_ndarray \<lparr>shape = [2, 3], dtype = Float32, data = [0..<6]\<rparr>"
    by (simp add: wf_ndarray_def size_of_def)
  have "process_axes \<lparr>shape = [2, 3], dtype = Float32, data = [0..<6]\<rparr> [''down1''] True
       = Inr (\<lparr>shape = [2, 3], dtype = Float32, data = [0..<6]\<rparr>, [''out'', ''down''])"
    by (simp add: process_axes_def reorder_def target_order_def order_entry_def axis_map_def
      current_order_def new_shape_def group_shape_def has_axis_def up_idx_def down_idx_def
      out_offset_def py_index_def np_reshape_def size_of_def final_axes_def upt_rec)
  then show ?thesis
    using w skip_transpose_equivalent [OF w, of "[''down1'']" True] by simp
qed

text \<open>
  C10. For every valid input, \<open>process_axes\<close> returns without raising: the target
  order is a permutation of \<open>range(rank)\<close>, the up group (from \<open>up_idx\<close>) and the down
  group (from \<open>down_idx\<close>) lie within the shape, the down group ending exactly at the
  rank, and the new shape has as many elements as the reordered tensor.
\<close>

theorem process_axes_safe:
  assumes "valid_input t bond_axes has_out"
  shows "(\<exists>r. process_axes t bond_axes has_out = Inr r)
       \<and> mset (target_order bond_axes has_out) = mset [0..<length (shape t)]
       \<and> up_idx has_out
           + (if has_axis bond_axes ''up1'' then 1 else 0)
           + (if has_axis bond_axes ''up2'' then 1 else 0) \<le> length (shape t)
       \<and> down_idx bond_axes has_out
           + (if has_axis bond_axes ''down1'' then 1 else 0)
           + (if has_axis bond_axes ''down2'' then 1 else 0) = length (shape t)
       \<and> (\<exists>t1 ns. reorder t bond_axes has_out = Inr t1
             \<and> new_shape (shape t1) bond_axes has_out = Inr ns
             \<and> prod_list ns = size_of t1)"
proof -
  obtain t1 ns where
    "reorder t bond_axes has_out = Inr t1"
    "new_shape (shape t1) bond_axes has_out = Inr ns"
    "prod_list ns = size_of t1"
    "process_axes t bond_axes has_out = Inr (t1\<lparr>shape := ns\<rparr>, final_axes bond_axes has_out)"
    using process_axes_ok [OF assms] by metis
  moreover have "mset (target_order bond_axes has_out) = mset [0..<length (shape t)]"
    using assms target_order_perm [of bond_axes has_out] by (simp add: valid_input_def)
  moreover have "down_idx bond_axes has_out
           + (if has_axis bond_axes ''down1'' then 1 else 0)
           + (if has_axis bond_axes ''down2'' then 1 else 0) = length (shape t)"
    using valid_input_rank [OF assms] by (simp add: down_idx_def group_count_def)
  moreover have "up_idx has_out
           + (if has_axis bond_axes ''up1'' then 1 else 0)
           + (if has_axis bond_axes ''up2'' then 1 else 0) \<le> length (shape t)"
    using valid_input_rank [OF assms] by (simp add: up_idx_def group_count_def)
  ultimately show ?thesis by blast
qed

theorem process_axes_safe_witness:
  "valid_input \<lparr>shape = [2, 3, 4, 5, 6], dtype = Complex64, data = replicate 720 (0::int)\<rparr>
      [''down2'', ''up1'', ''down1'', ''up2''] True
   \<and> (\<exists>r. process_axes \<lparr>shape = [2, 3, 4, 5, 6], dtype = Complex64, data = replicate 720 (0::int)\<rparr>
      [''down2'', ''up1'', ''down1'', ''up2''] True = Inr r)
   \<and> mset (target_order [''down2'', ''up1'', ''down1'', ''up2''] True) = mset [0, 1, 2, 3, 4]"
proof -
  let ?t = "\<lparr>shape = [2, 3, 4, 5, 6], dtype = Complex64, data = replicate 720 (0::int)\<rparr>"
  let ?b = "[''down2'', ''up1'', ''down1'', ''up2'']"
  have v: "valid_input ?t ?b True"
    by (simp add: valid_input_def valid_labels_def out_offset_def)
  have "[0..<length (shape ?t)] = [0, 1, 2, 3, 4]" by (simp add: upt_rec)
  then have "(\<exists>r. process_axes ?t ?b True = Inr r)
      \<and> mset (target_order ?b True) = mset [0, 1, 2, 3, 4]"
    using process_axes_safe [OF v] by metis
  with v show ?thesis by blast
qed

section \<open>The claims about TT_State_Compression\<close>

text \<open>
  The list handed to the decomposition: torch accepts every tensor or the comprehension
  raises, and an accepted tensor becomes a complex128 tensor of the same shape.
\<close>

lemma torch_tensor_cases:
  "torch_tensor cast a dt = Inr c \<Longrightarrow>
     \<not> torch_refuses a \<and> dtype c = dt \<and> shape c = shape a
     \<and> data c = map (convert cast (dtype a) dt) (data a)
     \<and> strides c = c_strides (itemsize dt) (shape a)"
  by (auto simp: torch_tensor_def split: if_splits)

lemma tensor_list_result:
  assumes "tensor_list cast st = Inr cs"
  shows "length cs = length st
       \<and> (\<forall>i < length st. \<not> torch_refuses (tensor (st ! i))
             \<and> dtype (cs ! i) = Complex128
             \<and> shape (cs ! i) = shape (tensor (st ! i))
             \<and> data (cs ! i)
                 = map (convert cast (dtype (tensor (st ! i))) Complex128) (data (tensor (st ! i))))"
  using assms
proof (induction st arbitrary: cs)
  case Nil
  then show ?case by simp
next
  case (Cons nd nds)
  from Cons.prems obtain c cs' where
    c: "torch_tensor cast (tensor nd) Complex128 = Inr c" and
    cs': "tensor_list cast nds = Inr cs'" and cs: "cs = c # cs'"
    by (auto split: sum.splits)
  note ih = Cons.IH [OF cs']
  note h = torch_tensor_cases [OF c]
  show ?case
  proof (intro conjI allI impI)
    show "length cs = length (nd # nds)" using ih by (simp add: cs)
  next
    fix i assume i: "i < length (nd # nds)"
    show "\<not> torch_refuses (tensor ((nd # nds) ! i))"
      "dtype (cs ! i) = Complex128"
      "shape (cs ! i) = shape (tensor ((nd # nds) ! i))"
      "data (cs ! i) = map (convert cast (dtype (tensor ((nd # nds) ! i))) Complex128)
                         (data (tensor ((nd # nds) ! i)))"
      using i ih h by (cases i; simp add: cs)+
  qed
qed

lemma tensor_list_total:
  assumes "\<forall>nd \<in> set st. \<not> torch_refuses (tensor nd)"
  shows "\<exists>cs. tensor_list cast st = Inr cs"
  using assms by (induction st) (auto simp: torch_tensor_def)

lemma tensor_list_error:
  assumes "tensor_list cast st = Inl e"
  shows "e = ValueError \<and> (\<exists>nd \<in> set st. torch_refuses (tensor nd))"
  using assms
  by (induction st) (auto simp: torch_tensor_def split: sum.splits if_splits)

lemma tensor_list_refuses:
  assumes "\<exists>nd \<in> set st. torch_refuses (tensor nd)"
  shows "tensor_list cast st = Inl ValueError"
proof (cases "tensor_list cast st")
  case (Inl e)
  then show ?thesis using tensor_list_error [OF Inl] by simp
next
  case (Inr cs)
  from assms obtain i where "i < length st" "torch_refuses (tensor (st ! i))"
    by (auto simp: in_set_conv_nth)
  then show ?thesis using tensor_list_result [OF Inr] by blast
qed

text \<open>The loop that turns the cores into nodes.\<close>

lemma TT_cores_ok:
  assumes "i + length cores \<le> length st"
    and "\<forall>k < length cores. distinct (axis_names (st ! (i + k)))
            \<and> length (axis_names (st ! (i + k))) = length (shape (cores ! k))"
  shows "\<exists>res. TT_cores st i cores = Inr res \<and> length res = length cores
           \<and> (\<forall>k < length cores. res ! k
                 = \<lparr>tensor = cores ! k, name = name (st ! (i + k)),
                     axis_names = axis_names (st ! (i + k))\<rparr>)"
  using assms
proof (induction cores arbitrary: i)
  case Nil
  then show ?case by simp
next
  case (Cons c cs)
  have i: "i < length st" using Cons.prems(1) by simp
  have "distinct (axis_names (st ! i)) \<and> length (axis_names (st ! i)) = length (shape c)"
    using Cons.prems(2) by fastforce
  then have n: "Node_new c (name (st ! i)) (axis_names (st ! i))
          = Inr \<lparr>tensor = c, name = name (st ! i), axis_names = axis_names (st ! i)\<rparr>"
    by (simp add: Node_new_def)
  have "Suc i + length cs \<le> length st" using Cons.prems(1) by simp
  moreover have "\<forall>k < length cs. distinct (axis_names (st ! (Suc i + k)))
            \<and> length (axis_names (st ! (Suc i + k))) = length (shape (cs ! k))"
  proof (intro allI impI)
    fix k assume "k < length cs"
    then have "Suc k < length (c # cs)" by simp
    then show "distinct (axis_names (st ! (Suc i + k)))
            \<and> length (axis_names (st ! (Suc i + k))) = length (shape (cs ! k))"
      using Cons.prems(2) [rule_format, of "Suc k"] by simp
  qed
  ultimately obtain res where res: "TT_cores st (Suc i) cs = Inr res" "length res = length cs"
    "\<forall>k < length cs. res ! k
                 = \<lparr>tensor = cs ! k, name = name (st ! (Suc i + k)),
                     axis_names = axis_names (st ! (Suc i + k))\<rparr>"
    using Cons.IH [of "Suc i"] by blast
  let ?n = "\<lparr>tensor = c, name = name (st ! i), axis_names = axis_names (st ! i)\<rparr>"
  have "TT_cores st i (c # cs) = Inr (?n # res)"
    using i n res(1) by (simp add: py_index_def)
  moreover have "length (?n # res) = length (c # cs)" using res(2) by simp
  moreover have "\<forall>k < length (c # cs). (?n # res) ! k
                 = \<lparr>tensor = (c # cs) ! k, name = name (st ! (i + k)),
                     axis_names = axis_names (st ! (i + k))\<rparr>"
  proof (intro allI impI)
    fix k assume k: "k < length (c # cs)"
    show "(?n # res) ! k
                 = \<lparr>tensor = (c # cs) ! k, name = name (st ! (i + k)),
                     axis_names = axis_names (st ! (i + k))\<rparr>"
    proof (cases k)
      case 0
      then show ?thesis by simp
    next
      case (Suc k')
      then have "k' < length cs" using k by simp
      then show ?thesis using res(3) Suc by simp
    qed
  qed
  ultimately show ?case by blast
qed

lemma TT_cores_result:
  assumes "TT_cores st i cores = Inr res"
  shows "length res = length cores
       \<and> (\<forall>k < length cores. i + k < length st \<and> res ! k
                 = \<lparr>tensor = cores ! k, name = name (st ! (i + k)),
                     axis_names = axis_names (st ! (i + k))\<rparr>)"
  using assms
proof (induction cores arbitrary: i res)
  case Nil
  then show ?case by simp
next
  case (Cons c cs)
  from Cons.prems obtain n ns where
    i: "i < length st" and
    n: "Node_new c (name (st ! i)) (axis_names (st ! i)) = Inr n" and
    ns: "TT_cores st (Suc i) cs = Inr ns" and res: "res = n # ns"
    by (auto simp: py_index_def split: if_splits sum.splits)
  have n': "n = \<lparr>tensor = c, name = name (st ! i), axis_names = axis_names (st ! i)\<rparr>"
    using n by (auto simp: Node_new_def split: if_splits)
  note ih = Cons.IH [OF ns]
  have "\<forall>k < length (c # cs). i + k < length st \<and> res ! k
                 = \<lparr>tensor = (c # cs) ! k, name = name (st ! (i + k)),
                     axis_names = axis_names (st ! (i + k))\<rparr>"
  proof (intro allI impI)
    fix k assume k: "k < length (c # cs)"
    show "i + k < length st \<and> res ! k = \<lparr>tensor = (c # cs) ! k, name = name (st ! (i + k)),
                     axis_names = axis_names (st ! (i + k))\<rparr>"
    proof (cases k)
      case 0
      then show ?thesis using i by (simp add: res n')
    next
      case (Suc k')
      then have "k' < length cs" using k by simp
      then show ?thesis using ih Suc by (simp add: res)
    qed
  qed
  then show ?case using ih by (simp add: res)
qed

text \<open>
  C7. Every list that \<open>TT_State_Compression\<close> returns carries the metadata of the
  input positionally, whatever the decomposition returns: it is no longer than the input
  chain and its \<open>i\<close>-th node has the name and the axis names of the \<open>i\<close>-th input
  node. With tntorch's rounding, which returns as many cores as it was given, the returned
  list has the length of the input chain.
\<close>

theorem tt_compression_metadata:
  "(TT_State_Compression cast round_tt st eps = Inr res \<longrightarrow>
      length res \<le> length st
      \<and> (\<forall>i < length res. name (res ! i) = name (st ! i)
             \<and> axis_names (res ! i) = axis_names (st ! i)))
   \<and> (TT_State_Compression cast (tntorch_round fails core) st eps = Inr res' \<longrightarrow>
        length res' = length st
        \<and> (\<forall>i < length st. name (res' ! i) = name (st ! i)
               \<and> axis_names (res' ! i) = axis_names (st ! i)))"
proof -
  have any: "length r \<le> length st
      \<and> (\<forall>i < length r. name (r ! i) = name (st ! i)
             \<and> axis_names (r ! i) = axis_names (st ! i))
      \<and> (\<exists>cs cores. tensor_list cast st = Inr cs \<and> svc eps cs = Inr cores
             \<and> length r = length cores)"
    if "TT_State_Compression cast svc st eps = Inr r" for svc r
  proof -
    from that obtain cs cores where cs: "tensor_list cast st = Inr cs"
      and cores: "svc eps cs = Inr cores" and r: "TT_cores st 0 cores = Inr r"
      by (auto simp: TT_State_Compression_def split: sum.splits)
    note t = TT_cores_result [OF r]
    have "length cores \<le> length st"
    proof (rule ccontr)
      assume "\<not> length cores \<le> length st"
      then have "length st < length cores" by simp
      then have "0 + length st < length st" using t by blast
      then show False by simp
    qed
    then show ?thesis using t cs cores by simp
  qed
  have "length res' = length st"
    if "TT_State_Compression cast (tntorch_round fails core) st eps = Inr res'"
  proof -
    from any [OF that] obtain cs cores where cs: "tensor_list cast st = Inr cs"
      and cores: "tntorch_round fails core eps cs = Inr cores"
      and l: "length res' = length cores"
      by blast
    have "length cores = length cs"
      using cores by (auto simp: tntorch_round_def split: option.splits)
    then show ?thesis using l tensor_list_result [OF cs] by simp
  qed
  then show ?thesis using any by auto
qed

theorem tt_compression_metadata_witness:
  "\<exists>res. TT_State_Compression (\<lambda>_ _ x. x) (tntorch_round (\<lambda>_ _. None) (\<lambda>_ cs i. cs ! i))
            chain_example (0::real) = Inr res
      \<and> length res = length chain_example
      \<and> name (res ! 0) = ''q0'' \<and> axis_names (res ! 0) = [''left'', ''out'', ''right'']
      \<and> name (res ! 1) = ''q1'' \<and> axis_names (res ! 1) = [''l'', ''o'', ''r'']"
proof -
  let ?cast = "\<lambda>(_::dtype) (_::dtype) (x::int). x"
  let ?fails = "\<lambda>(_::real) (_::int strided list). (None :: error option)"
  let ?core = "\<lambda>(_::real) (cs::int strided list) i. cs ! i"
  have "\<exists>res. TT_State_Compression ?cast (tntorch_round ?fails ?core) chain_example 0 = Inr res"
    by (simp add: TT_State_Compression_def torch_tensor_def torch_refuses_def itemsize_def
        chain_example_def tntorch_round_def upt_rec py_index_def Node_new_def)
  then obtain res where
    res: "TT_State_Compression ?cast (tntorch_round ?fails ?core) chain_example 0 = Inr res"
    by blast
  have "length res = length chain_example"
    and m: "\<forall>i < length chain_example. name (res ! i) = name (chain_example ! i)
               \<and> axis_names (res ! i) = axis_names (chain_example ! i)"
    using tt_compression_metadata [of ?cast _ chain_example 0 _ ?fails ?core res] res by blast+
  moreover have "name (res ! 0) = ''q0'' \<and> axis_names (res ! 0) = [''left'', ''out'', ''right'']
      \<and> name (res ! 1) = ''q1'' \<and> axis_names (res ! 1) = [''l'', ''o'', ''r'']"
  proof -
    have "0 < length chain_example" "1 < length chain_example"
      by (simp_all add: chain_example_def)
    then have "name (res ! 0) = name (chain_example ! 0)
        \<and> axis_names (res ! 0) = axis_names (chain_example ! 0)"
      and "name (res ! 1) = name (chain_example ! 1)
        \<and> axis_names (res ! 1) = axis_names (chain_example ! 1)"
      using m by blast+
    then show ?thesis by (simp add: chain_example_def)
  qed
  ultimately show ?thesis using res by blast
qed

text \<open>
  When torch accepts every tensor, the rounding does not raise and the axis names of every
  node are distinct and one for every axis of its new core, the call returns. A chain with
  a reversed view is refused before the decomposition is reached.
\<close>

lemma tt_compression_returns:
  assumes "\<forall>nd \<in> set st. \<not> torch_refuses (tensor nd)"
    and "\<And>cs. tensor_list cast st = Inr cs \<Longrightarrow> fails eps cs = None
           \<and> (\<forall>i < length st. distinct (axis_names (st ! i))
                  \<and> length (axis_names (st ! i)) = length (shape (core eps cs i)))"
  shows "\<exists>res. TT_State_Compression cast (tntorch_round fails core) st eps = Inr res"
proof -
  obtain cs where cs: "tensor_list cast st = Inr cs"
    using tensor_list_total [OF assms(1)] by blast
  have l: "length cs = length st" using tensor_list_result [OF cs] by simp
  have f: "fails eps cs = None"
    and n: "\<forall>i < length st. distinct (axis_names (st ! i))
                  \<and> length (axis_names (st ! i)) = length (shape (core eps cs i))"
    using assms(2) [OF cs] by simp_all
  let ?cores = "map (core eps cs) [0..<length cs]"
  have "\<exists>res. TT_cores st 0 ?cores = Inr res \<and> length res = length ?cores
           \<and> (\<forall>k < length ?cores. res ! k
                 = \<lparr>tensor = ?cores ! k, name = name (st ! (0 + k)),
                     axis_names = axis_names (st ! (0 + k))\<rparr>)"
    using n l by (intro TT_cores_ok) simp_all
  then show ?thesis
    using cs f by (auto simp: TT_State_Compression_def tntorch_round_def)
qed

lemma tt_compression_reversed:
  "TT_State_Compression cast round_tt reversed_example eps = Inl ValueError"
  by (simp add: TT_State_Compression_def torch_tensor_def torch_refuses_def itemsize_def
      reversed_example_def)

text \<open>
  C8. Whatever the dtypes of the input tensors, \<open>TT_State_Compression\<close> hands the
  decomposition a chain of complex128 tensors, one for every input tensor, of the same shape
  and with every element converted to complex128. The decomposition is called on that
  chain (an error it raises there is the error of the call) and on nothing else (two
  decompositions that agree there give the same result). When torch refuses one of the
  input tensors, the call raises \<open>ValueError\<close> and the decomposition is not reached.
\<close>

theorem tt_compression_promotes:
  "((\<exists>nd \<in> set st. torch_refuses (tensor nd)) \<longrightarrow>
      (\<forall>round_tt. TT_State_Compression cast round_tt st eps = Inl ValueError))
   \<and> ((\<forall>nd \<in> set st. \<not> torch_refuses (tensor nd)) \<longrightarrow>
      (\<exists>cs. length cs = length st
         \<and> (\<forall>i < length st. dtype (cs ! i) = Complex128
                \<and> shape (cs ! i) = shape (tensor (st ! i))
                \<and> data (cs ! i)
                    = map (convert cast (dtype (tensor (st ! i))) Complex128)
                        (data (tensor (st ! i))))
         \<and> (\<forall>round_tt e. round_tt eps cs = Inl e \<longrightarrow>
                TT_State_Compression cast round_tt st eps = Inl e)
         \<and> (\<forall>round_tt round_tt'. round_tt eps cs = round_tt' eps cs \<longrightarrow>
                TT_State_Compression cast round_tt st eps
                  = TT_State_Compression cast round_tt' st eps)))"
proof (intro conjI impI)
  assume "\<exists>nd \<in> set st. torch_refuses (tensor nd)"
  then have "tensor_list cast st = Inl ValueError" by (rule tensor_list_refuses)
  then show "\<forall>round_tt. TT_State_Compression cast round_tt st eps = Inl ValueError"
    by (simp add: TT_State_Compression_def)
next
  assume "\<forall>nd \<in> set st. \<not> torch_refuses (tensor nd)"
  then obtain cs where cs: "tensor_list cast st = Inr cs"
    using tensor_list_total by blast
  note t = tensor_list_result [OF cs]
  have "TT_State_Compression cast round_tt st eps = Inl e"
    if "round_tt eps cs = Inl e"
    for round_tt :: "'b \<Rightarrow> 'a strided list \<Rightarrow> error + 'a strided list" and e
    using that cs by (simp add: TT_State_Compression_def)
  moreover have "TT_State_Compression cast round_tt st eps
                  = TT_State_Compression cast round_tt' st eps"
    if "round_tt eps cs = round_tt' eps cs"
    for round_tt round_tt' :: "'b \<Rightarrow> 'a strided list \<Rightarrow> error + 'a strided list"
    using that cs by (simp add: TT_State_Compression_def)
  ultimately show "\<exists>cs. length cs = length st
         \<and> (\<forall>i < length st. dtype (cs ! i) = Complex128
                \<and> shape (cs ! i) = shape (tensor (st ! i))
                \<and> data (cs ! i)
                    = map (convert cast (dtype (tensor (st ! i))) Complex128)
                        (data (tensor (st ! i))))
         \<and> (\<forall>round_tt e. round_tt eps cs = Inl e \<longrightarrow>
                TT_State_Compression cast round_tt st eps = Inl e)
         \<and> (\<forall>round_tt round_tt'. round_tt eps cs = round_tt' eps cs \<longrightarrow>
                TT_State_Compression cast round_tt st eps
                  = TT_State_Compression cast round_tt' st eps)"
    using t by blast
qed

theorem tt_compression_promotes_witness:
  "dtype (tensor (chain_example ! 0)) = Float32
   \<and> dtype (tensor (chain_example ! 1)) = Float32
   \<and> TT_State_Compression (\<lambda>_ _ x. x) failing_service chain_example 0
       = Inl DecompositionFailure
   \<and> TT_State_Compression (\<lambda>_ _ x. x) strict_service chain_example 0
       = TT_State_Compression (\<lambda>_ _ x. x) echo_service chain_example 0
   \<and> (\<exists>res. TT_State_Compression (\<lambda>_ _ x. x) strict_service chain_example 0 = Inr res)
   \<and> TT_State_Compression (\<lambda>_ _ x. x) echo_service reversed_example 0 = Inl ValueError"
proof -
  let ?cast = "\<lambda>(_::dtype) (_::dtype) (x::int). x"
  note th = tt_compression_promotes [of chain_example ?cast "0::real"]
  note th' = tt_compression_promotes [of reversed_example ?cast "0::real"]
  have echo: "\<exists>res. TT_State_Compression ?cast echo_service chain_example 0 = Inr res"
    by (simp add: TT_State_Compression_def torch_tensor_def torch_refuses_def itemsize_def
        chain_example_def echo_service_def py_index_def Node_new_def)
  have "\<exists>nd \<in> set reversed_example. torch_refuses (tensor nd)"
    by (simp add: reversed_example_def torch_refuses_def)
  then have "\<forall>round_tt :: real \<Rightarrow> int strided list \<Rightarrow> error + int strided list.
      TT_State_Compression ?cast round_tt reversed_example 0 = Inl ValueError"
    using th' [THEN conjunct1] by (rule rev_mp)
  then have rev: "TT_State_Compression ?cast echo_service reversed_example 0 = Inl ValueError"
    by (rule spec)
  have "\<forall>nd \<in> set chain_example. \<not> torch_refuses (tensor nd)"
    by (simp add: chain_example_def torch_refuses_def itemsize_def)
  then have "\<exists>cs. length cs = length chain_example
         \<and> (\<forall>i < length chain_example. dtype (cs ! i) = Complex128
                \<and> shape (cs ! i) = shape (tensor (chain_example ! i))
                \<and> data (cs ! i)
                    = map (convert ?cast (dtype (tensor (chain_example ! i))) Complex128)
                        (data (tensor (chain_example ! i))))
         \<and> (\<forall>(round_tt :: real \<Rightarrow> int strided list \<Rightarrow> error + int strided list) e.
                round_tt 0 cs = Inl e \<longrightarrow>
                TT_State_Compression ?cast round_tt chain_example 0 = Inl e)
         \<and> (\<forall>(round_tt :: real \<Rightarrow> int strided list \<Rightarrow> error + int strided list)
                (round_tt' :: real \<Rightarrow> int strided list \<Rightarrow> error + int strided list).
                round_tt 0 cs = round_tt' 0 cs \<longrightarrow>
                TT_State_Compression ?cast round_tt chain_example 0
                  = TT_State_Compression ?cast round_tt' chain_example 0)"
    (is "\<exists>cs. ?P cs")
    using th [THEN conjunct2] by (rule rev_mp)
  then obtain cs where all: "?P cs" ..
  note l = all [THEN conjunct1]
  note d = all [THEN conjunct2, THEN conjunct1]
  note err = all [THEN conjunct2, THEN conjunct2, THEN conjunct1]
  note only = all [THEN conjunct2, THEN conjunct2, THEN conjunct2]
  have l2: "length cs = 2" using l by (simp add: chain_example_def)
  then have "0 < length chain_example" "1 < length chain_example"
    using l by simp_all
  then have c: "dtype (cs ! 0) = Complex128" "dtype (cs ! 1) = Complex128"
    using d by blast+
  have "\<forall>c \<in> set cs. dtype c = Complex128"
  proof
    fix x assume "x \<in> set cs"
    then obtain i where "i < 2" "x = cs ! i" using l2 by (auto simp: in_set_conv_nth)
    then have "i = 0 \<or> i = 1" by auto
    then show "dtype x = Complex128" using c \<open>x = cs ! i\<close> by auto
  qed
  then have "strict_service 0 cs = echo_service 0 cs"
    by (simp add: strict_service_def echo_service_def list_all_iff)
  then have same: "TT_State_Compression ?cast strict_service chain_example 0
       = TT_State_Compression ?cast echo_service chain_example 0"
    using only by blast
  have "failing_service 0 cs = Inl DecompositionFailure" by (simp add: failing_service_def)
  then have "TT_State_Compression ?cast failing_service chain_example 0
       = Inl DecompositionFailure"
    using err by blast
  moreover have "dtype (tensor (chain_example ! 0)) = Float32"
    "dtype (tensor (chain_example ! 1)) = Float32"
    by (simp_all add: chain_example_def)
  ultimately show ?thesis using same echo rev by simp
qed

section \<open>process_axes leaves the store alone\<close>

text \<open>
  C9. A call of \<open>process_axes\<close> on a tensor and a label list of the store changes
  no object that was there before, the tensor and the label list among them: it only adds
  new objects. What it returns (an error, or the references of a new array and a new list)
  is what the function \<open>process_axes\<close> of the tensor's and the list's values gives, so
  equal inputs give equal outputs.
\<close>

theorem process_axes_heap_frame:
  assumes "p < length (arrays h)" and "q < length (label_lists h)"
    and "process_axes_heap h p q has_out = (r, h')"
  shows "take (length (arrays h)) (arrays h') = arrays h
       \<and> take (length (label_lists h)) (label_lists h') = label_lists h
       \<and> arrays h' ! p = arrays h ! p
       \<and> label_lists h' ! q = label_lists h ! q
       \<and> (case r of
            Inl e \<Rightarrow> process_axes (arrays h ! p) (label_lists h ! q) has_out = Inl e
          | Inr (p', q') \<Rightarrow>
              p' < length (arrays h') \<and> q' < length (label_lists h')
              \<and> process_axes (arrays h ! p) (label_lists h ! q) has_out
                  = Inr (arrays h' ! p', label_lists h' ! q'))"
proof (cases "reorder (arrays h ! p) (label_lists h ! q) has_out")
  case (Inl e)
  then have "process_axes_heap h p q has_out = (Inl e, h)"
    by (auto simp: process_axes_heap_def reorder_def Let_def split: if_splits sum.splits)
  moreover have "process_axes (arrays h ! p) (label_lists h ! q) has_out = Inl e"
    using Inl by (simp add: process_axes_def)
  ultimately have "r = Inl e" "h' = h" using assms(3) by simp_all
  then show ?thesis
    using \<open>process_axes (arrays h ! p) (label_lists h ! q) has_out = Inl e\<close> by simp
next
  case (Inr t1)
  define p1 where "p1 = (if target_order (label_lists h ! q) has_out \<noteq> current_order (arrays h ! p)
                          then length (arrays h) else p)"
  define h1 where "h1 = (if target_order (label_lists h ! q) has_out \<noteq> current_order (arrays h ! p)
                          then h\<lparr>arrays := arrays h @ [t1]\<rparr> else h)"
  have step1: "(if target_order (label_lists h ! q) has_out \<noteq> current_order (arrays h ! p)
               then (case np_transpose (arrays h ! p) (target_order (label_lists h ! q) has_out) of
                       Inl e \<Rightarrow> Inl e
                     | Inr v \<Rightarrow> Inr (new_array v h))
               else Inr (p, h)) = Inr (p1, h1)"
    using Inr by (auto simp: reorder_def new_array_def p1_def h1_def)
  have t1: "arrays h1 ! p1 = t1"
    using Inr by (simp add: reorder_def p1_def h1_def split: if_splits)
  have f1: "take (length (arrays h)) (arrays h1) = arrays h" "label_lists h1 = label_lists h"
    "length (arrays h) \<le> length (arrays h1)"
    by (simp_all add: h1_def)
  have g1: "arrays h1 ! p = arrays h ! p" "p < length (arrays h1)"
    using assms(1) by (simp_all add: h1_def nth_append)
  have fin: ?thesis
    if "process_axes_heap h p q has_out = (Inl e, h1)"
      and "process_axes (arrays h ! p) (label_lists h ! q) has_out = Inl e" for e
  proof -
    have "r = Inl e" "h' = h1" using that(1) assms(3) by simp_all
    then show ?thesis using that(2) f1 g1 by simp
  qed
  show ?thesis
  proof (cases "new_shape (shape t1) (label_lists h ! q) has_out")
    case (Inl e)
    then have "process_axes_heap h p q has_out = (Inl e, h1)"
      unfolding process_axes_heap_def Let_def step1 by (simp add: t1)
    moreover have "process_axes (arrays h ! p) (label_lists h ! q) has_out = Inl e"
      using Inl Inr by (simp add: process_axes_def)
    ultimately show ?thesis by (rule fin)
  next
    case ns: (Inr ns)
    show ?thesis
    proof (cases "np_reshape t1 ns")
      case (Inl e)
      then have "process_axes_heap h p q has_out = (Inl e, h1)"
        unfolding process_axes_heap_def Let_def step1 by (simp add: t1 ns)
      moreover have "process_axes (arrays h ! p) (label_lists h ! q) has_out = Inl e"
        using Inl ns Inr by (simp add: process_axes_def)
      ultimately show ?thesis by (rule fin)
    next
      case t2: (Inr t2)
      have "process_axes_heap h p q has_out
              = (Inr (length (arrays h1), length (label_lists h1)),
                 h1\<lparr>arrays := arrays h1 @ [t2],
                     label_lists := label_lists h1 @ [final_axes (label_lists h ! q) has_out]\<rparr>)"
        unfolding process_axes_heap_def Let_def step1
        by (simp add: t1 ns t2 new_array_def new_list_def)
      then have r: "r = Inr (length (arrays h1), length (label_lists h1))"
        and h': "h' = h1\<lparr>arrays := arrays h1 @ [t2],
                     label_lists := label_lists h1 @ [final_axes (label_lists h ! q) has_out]\<rparr>"
        using assms(3) by simp_all
      have pa: "process_axes (arrays h ! p) (label_lists h ! q) has_out
              = Inr (t2, final_axes (label_lists h ! q) has_out)"
        using t2 ns Inr by (simp add: process_axes_def)
      have "take (length (arrays h)) (arrays h') = arrays h"
        using f1 by (simp add: h')
      moreover have "take (length (label_lists h)) (label_lists h') = label_lists h"
        using f1 by (simp add: h')
      moreover have "arrays h' ! p = arrays h ! p"
        using g1 by (simp add: h' nth_append)
      moreover have "label_lists h' ! q = label_lists h ! q"
        using assms(2) f1 by (simp add: h' nth_append)
      moreover have "arrays h' ! length (arrays h1) = t2"
        "label_lists h' ! length (label_lists h1) = final_axes (label_lists h ! q) has_out"
        "length (arrays h1) < length (arrays h')" "length (label_lists h1) < length (label_lists h')"
        by (simp_all add: h')
      ultimately show ?thesis by (simp add: r pa)
    qed
  qed
qed

theorem process_axes_heap_frame_witness:
  "0 < length (arrays heap_example) \<and> 0 < length (label_lists heap_example)
   \<and> (\<exists>h'. process_axes_heap heap_example 0 0 False = (Inr (2, 1), h')
         \<and> arrays h' ! 0 = \<lparr>shape = [2, 3], dtype = Int64, data = [0, 1, 2, 3, 4, 5]\<rparr>
         \<and> label_lists h' ! 0 = [''down2'', ''up1'']
         \<and> arrays h' ! 2 = \<lparr>shape = [3, 2], dtype = Int64, data = [0, 3, 1, 4, 2, 5]\<rparr>
         \<and> label_lists h' ! 1 = [''up'', ''down''])"
proof -
  let ?h' = "\<lparr>arrays = [\<lparr>shape = [2, 3], dtype = Int64, data = [0, 1, 2, 3, 4, 5]\<rparr>,
        \<lparr>shape = [3, 2], dtype = Int64, data = [0, 3, 1, 4, 2, 5]\<rparr>,
        \<lparr>shape = [3, 2], dtype = Int64, data = [0, 3, 1, 4, 2, 5::nat]\<rparr>],
      label_lists = [[''down2'', ''up1''], [''up'', ''down'']]\<rparr>"
  have a: "0 < length (arrays heap_example)" and b: "0 < length (label_lists heap_example)"
    by (simp_all add: heap_example_def)
  have e: "process_axes_heap heap_example 0 0 False = (Inr (2, 1), ?h')"
    by code_simp
  have "arrays ?h' ! 0 = arrays heap_example ! 0"
    and "label_lists ?h' ! 0 = label_lists heap_example ! 0"
    using process_axes_heap_frame [OF a b e] by blast+
  then have "arrays ?h' ! 0 = \<lparr>shape = [2, 3], dtype = Int64, data = [0, 1, 2, 3, 4, 5]\<rparr>"
    and "label_lists ?h' ! 0 = [''down2'', ''up1'']"
    by (simp_all add: heap_example_def)
  moreover have "arrays ?h' ! 2 = \<lparr>shape = [3, 2], dtype = Int64, data = [0, 3, 1, 4, 2, 5]\<rparr>"
    and "label_lists ?h' ! 1 = [''up'', ''down'']"
    by simp_all
  ultimately show ?thesis using a b e by blast
qed

end
